theory Spec2Isabelle
  imports Complex_Main
begin

section \<open>Values, errors and effects\<close>

text \<open>
  The kinematics core of \<^verbatim>\<open>ale.cpp\<close>: interpolation of tabulated positions and
  rotations, and evaluation of polynomial position models.

  A C++ \<^verbatim>\<open>double\<close> is idealised as a \<^typ>\<open>real\<close>, a \<^verbatim>\<open>vector<double>\<close> is a
  \<^typ>\<open>real list\<close>, and \<^verbatim>\<open>size_t\<close> is \<^typ>\<open>nat\<close>. The interpolation primitive is given a
  second time with binary64 arithmetic, for the statements on the exact value it
  returns. The derivative order \<^verbatim>\<open>int d\<close> is an
  \<^typ>\<open>int\<close> between \<open>-2\<^sup>3\<^sup>1\<close> and \<open>2\<^sup>3\<^sup>1 - 1\<close>; where the code adds to it, the 32-bit
  wrap-around is written out. Memory is unbounded: an allocation of a size the container
  admits succeeds.

  The enumeration \<^verbatim>\<open>interpolation\<close> is declared in \<^verbatim>\<open>ale.h\<close>; its two values index the
  array \<^verbatim>\<open>interp_methods = {gsl_interp_linear, gsl_interp_cspline}\<close> of \<^verbatim>\<open>interpolate\<close>.
\<close>

datatype interpolation = LINEAR | SPLINE

text \<open>
  A call ends in one of four ways besides returning: it throws
  \<^verbatim>\<open>std::invalid_argument\<close> with a message, the constructor of a \<^verbatim>\<open>std::vector\<close> throws
  \<^verbatim>\<open>std::length_error\<close>, the GSL error handler is invoked with a reason (the default
  handler prints the reason and aborts the process), or an unchecked \<^verbatim>\<open>operator[]\<close>
  reads outside its vector.
\<close>

datatype error =
    Invalid_argument string
  | Length_error string
  | Gsl_error string
  | Out_of_range_access

text \<open>
  The numerical work a call performs is recorded as a list of events, one per call into
  GSL or Eigen, in program order. A computation is the pair of the events it performed
  and its outcome.
\<close>

datatype event =
    Interp_alloc
  | Interp_init
  | Accel_alloc
  | Interp_eval nat
  | Interp_free
  | Accel_free
  | Poly_eval_derivs
  | Quaternion_normalize
  | Vector_normalize

type_synonym 'a run = "event list \<times> (error + 'a)"

definition succeed :: "'a \<Rightarrow> 'a run" where
  "succeed x = ([], Inr x)"

definition raise :: "error \<Rightarrow> 'a run" where
  "raise e = ([], Inl e)"

definition call :: "event \<Rightarrow> 'a \<Rightarrow> 'a run" where
  "call ev x = ([ev], Inr x)"

text \<open>Sequencing: an error ends the computation, keeping the events performed so far.\<close>

definition and_then :: "'a run \<Rightarrow> ('a \<Rightarrow> 'b run) \<Rightarrow> 'b run" where
  "and_then m f =
     (case m of
        (es, Inl e) \<Rightarrow> (es, Inl e)
      | (es, Inr x) \<Rightarrow> (case f x of (es', r) \<Rightarrow> (es @ es', r)))"

abbreviation events :: "'a run \<Rightarrow> event list" where
  "events m \<equiv> fst m"

abbreviation outcome :: "'a run \<Rightarrow> error + 'a" where
  "outcome m \<equiv> snd m"

section \<open>GSL interpolation objects\<close>

text \<open>
  GSL is a library the repository links against. Its routines are modelled after
  \<^verbatim>\<open>interpolation/interp.c\<close>, \<^verbatim>\<open>accel.c\<close>, \<^verbatim>\<open>bsearch.c\<close>, \<^verbatim>\<open>linear.c\<close> and \<^verbatim>\<open>cspline.c\<close>
  of GSL 2.x. \<^verbatim>\<open>GSL_ERROR\<close> invokes the error handler, which \<^verbatim>\<open>ale.cpp\<close> leaves at its
  default.

  The cubic spline's coefficients come from \<^verbatim>\<open>gsl_linalg_solve_symm_tridiag\<close>. The
  solver is a parameter of the model (diagonal, off-diagonal, right-hand side to
  solution): every result below holds for every solver.
\<close>

type_synonym tridiag_solver = "real list \<Rightarrow> real list \<Rightarrow> real list \<Rightarrow> real list"

record gsl_interp =
  itype :: interpolation
  xmin :: real
  xmax :: real
  isize :: nat
  cstate :: "real list"

record gsl_interp_accel =
  cache :: nat
  miss_count :: nat
  hit_count :: nat

definition min_size :: "interpolation \<Rightarrow> nat" where
  "min_size T = (case T of LINEAR \<Rightarrow> 2 | SPLINE \<Rightarrow> 3)"

definition gsl_interp_alloc :: "interpolation \<Rightarrow> nat \<Rightarrow> gsl_interp run" where
  "gsl_interp_alloc T n =
     (if n < min_size T
      then raise (Gsl_error ''insufficient number of points for interpolation type'')
      else call Interp_alloc
             \<lparr>itype = T, xmin = 0, xmax = 0, isize = n, cstate = replicate n 0\<rparr>)"

definition strictly_increasing :: "real list \<Rightarrow> nat \<Rightarrow> bool" where
  "strictly_increasing x_array n = list_all (\<lambda>i. x_array ! (i - 1) < x_array ! i) [1..<n]"

definition cspline_init :: "tridiag_solver \<Rightarrow> real list \<Rightarrow> real list \<Rightarrow> nat \<Rightarrow> real list" where
  "cspline_init solve xa ya n =
     (let max_index = n - 1;
          sys_size = max_index - 1;
          h = (\<lambda>i. xa ! (i + 1) - xa ! i);
          ydiff = (\<lambda>i. ya ! (i + 1) - ya ! i);
          g_inv = (\<lambda>i. if h i \<noteq> 0 then 1 / h i else 0);
          offdiag = map (\<lambda>i. h (i + 1)) [0..<sys_size];
          diag = map (\<lambda>i. 2 * (h (i + 1) + h i)) [0..<sys_size];
          g = map (\<lambda>i. 3 * (ydiff (i + 1) * g_inv (i + 1) - ydiff i * g_inv i)) [0..<sys_size]
      in if sys_size = 1 then [0, g ! 0 / diag ! 0, 0]
         else 0 # map (\<lambda>i. solve diag (take (sys_size - 1) offdiag) g ! i) [0..<sys_size] @ [0])"

definition gsl_interp_init ::
  "tridiag_solver \<Rightarrow> gsl_interp \<Rightarrow> real list \<Rightarrow> real list \<Rightarrow> nat \<Rightarrow> gsl_interp run" where
  "gsl_interp_init solve interp x_array y_array n =
     (if n \<noteq> isize interp
      then raise (Gsl_error ''data must match size of interpolation object'')
      else if \<not> strictly_increasing x_array n
      then raise (Gsl_error ''x values must be strictly increasing'')
      else call Interp_init
             (interp\<lparr>xmin := x_array ! 0, xmax := x_array ! (n - 1),
                     cstate := (case itype interp of
                                  LINEAR \<Rightarrow> cstate interp
                                | SPLINE \<Rightarrow> cspline_init solve x_array y_array n)\<rparr>))"

definition gsl_interp_accel_alloc :: "gsl_interp_accel run" where
  "gsl_interp_accel_alloc = call Accel_alloc \<lparr>cache = 0, miss_count = 0, hit_count = 0\<rparr>"

function gsl_interp_bsearch :: "real list \<Rightarrow> real \<Rightarrow> nat \<Rightarrow> nat \<Rightarrow> nat" where
  "gsl_interp_bsearch x_array x ilo ihi =
     (if ihi > ilo + 1
      then (let i = (ihi + ilo) div 2
            in if x_array ! i > x
               then gsl_interp_bsearch x_array x ilo i
               else gsl_interp_bsearch x_array x i ihi)
      else ilo)"
  by pat_completeness auto
termination
  by (relation "measure (\<lambda>(x_array, x, ilo, ihi). ihi - ilo)") auto

definition gsl_interp_accel_find ::
  "gsl_interp_accel \<Rightarrow> real list \<Rightarrow> nat \<Rightarrow> real \<Rightarrow> gsl_interp_accel" where
  "gsl_interp_accel_find a xa len x =
     (let x_index = cache a
      in if x < xa ! x_index
         then a\<lparr>miss_count := miss_count a + 1, cache := gsl_interp_bsearch xa x 0 x_index\<rparr>
         else if x \<ge> xa ! (x_index + 1)
         then a\<lparr>miss_count := miss_count a + 1,
                 cache := gsl_interp_bsearch xa x x_index (len - 1)\<rparr>
         else a\<lparr>hit_count := hit_count a + 1\<rparr>)"

subsection \<open>The linear type\<close>

definition linear_eval :: "real list \<Rightarrow> real list \<Rightarrow> nat \<Rightarrow> real \<Rightarrow> gsl_interp_accel \<Rightarrow> real" where
  "linear_eval x_array y_array n x a =
     (let index = cache (gsl_interp_accel_find a x_array n x);
          x_lo = x_array ! index;
          x_hi = x_array ! (index + 1);
          y_lo = y_array ! index;
          y_hi = y_array ! (index + 1);
          dx = x_hi - x_lo
      in if dx > 0 then y_lo + (x - x_lo) / dx * (y_hi - y_lo) else 0)"

definition linear_eval_deriv ::
  "real list \<Rightarrow> real list \<Rightarrow> nat \<Rightarrow> real \<Rightarrow> gsl_interp_accel \<Rightarrow> real" where
  "linear_eval_deriv x_array y_array n x a =
     (let index = cache (gsl_interp_accel_find a x_array n x);
          x_lo = x_array ! index;
          x_hi = x_array ! (index + 1);
          y_lo = y_array ! index;
          y_hi = y_array ! (index + 1);
          dx = x_hi - x_lo;
          dy = y_hi - y_lo
      in if dx > 0 then dy / dx else 0)"

definition linear_eval_deriv2 ::
  "real list \<Rightarrow> real list \<Rightarrow> nat \<Rightarrow> real \<Rightarrow> gsl_interp_accel \<Rightarrow> real" where
  "linear_eval_deriv2 x_array y_array n x a = 0"

subsection \<open>The cubic spline type\<close>

definition coeff_calc :: "real list \<Rightarrow> real \<Rightarrow> real \<Rightarrow> nat \<Rightarrow> real \<times> real \<times> real" where
  "coeff_calc c_array dy dx index =
     (let c_i = c_array ! index;
          c_ip1 = c_array ! (index + 1)
      in ((dy / dx) - dx * (c_ip1 + 2 * c_i) / 3, c_i, (c_ip1 - c_i) / (3 * dx)))"

definition cspline_eval ::
  "real list \<Rightarrow> real list \<Rightarrow> real list \<Rightarrow> nat \<Rightarrow> real \<Rightarrow> gsl_interp_accel \<Rightarrow> real" where
  "cspline_eval c x_array y_array n x a =
     (let index = cache (gsl_interp_accel_find a x_array n x);
          x_hi = x_array ! (index + 1);
          x_lo = x_array ! index;
          dx = x_hi - x_lo
      in if dx > 0
         then (let y_lo = y_array ! index;
                   y_hi = y_array ! (index + 1);
                   dy = y_hi - y_lo;
                   delx = x - x_lo
               in case coeff_calc c dy dx index of
                    (b_i, c_i, d_i) \<Rightarrow> y_lo + delx * (b_i + delx * (c_i + delx * d_i)))
         else 0)"

definition cspline_eval_deriv ::
  "real list \<Rightarrow> real list \<Rightarrow> real list \<Rightarrow> nat \<Rightarrow> real \<Rightarrow> gsl_interp_accel \<Rightarrow> real" where
  "cspline_eval_deriv c x_array y_array n x a =
     (let index = cache (gsl_interp_accel_find a x_array n x);
          x_hi = x_array ! (index + 1);
          x_lo = x_array ! index;
          dx = x_hi - x_lo
      in if dx > 0
         then (let y_lo = y_array ! index;
                   y_hi = y_array ! (index + 1);
                   dy = y_hi - y_lo;
                   delx = x - x_lo
               in case coeff_calc c dy dx index of
                    (b_i, c_i, d_i) \<Rightarrow> b_i + delx * (2 * c_i + 3 * d_i * delx))
         else 0)"

definition cspline_eval_deriv2 ::
  "real list \<Rightarrow> real list \<Rightarrow> real list \<Rightarrow> nat \<Rightarrow> real \<Rightarrow> gsl_interp_accel \<Rightarrow> real" where
  "cspline_eval_deriv2 c x_array y_array n x a =
     (let index = cache (gsl_interp_accel_find a x_array n x);
          x_hi = x_array ! (index + 1);
          x_lo = x_array ! index;
          dx = x_hi - x_lo
      in if dx > 0
         then (let y_lo = y_array ! index;
                   y_hi = y_array ! (index + 1);
                   dy = y_hi - y_lo;
                   delx = x - x_lo
               in case coeff_calc c dy dx index of
                    (b_i, c_i, d_i) \<Rightarrow> 2 * c_i + 6 * d_i * delx)
         else 0)"

subsection \<open>Evaluation through the interpolation object\<close>

text \<open>
  The three evaluators check the abscissa against the range stored by
  \<^verbatim>\<open>gsl_interp_init\<close> and dispatch on the type. The status returned by the type's
  evaluator is discarded. The accelerator is written to and then dropped by the caller,
  so only the index it yields is kept.
\<close>

definition gsl_interp_eval ::
  "gsl_interp \<Rightarrow> real list \<Rightarrow> real list \<Rightarrow> real \<Rightarrow> gsl_interp_accel \<Rightarrow> real run" where
  "gsl_interp_eval interp xa ya x a =
     (if x < xmin interp \<or> x > xmax interp then raise (Gsl_error ''interpolation error'')
      else call (Interp_eval 0)
             (case itype interp of
                LINEAR \<Rightarrow> linear_eval xa ya (isize interp) x a
              | SPLINE \<Rightarrow> cspline_eval (cstate interp) xa ya (isize interp) x a))"

definition gsl_interp_eval_deriv ::
  "gsl_interp \<Rightarrow> real list \<Rightarrow> real list \<Rightarrow> real \<Rightarrow> gsl_interp_accel \<Rightarrow> real run" where
  "gsl_interp_eval_deriv interp xa ya x a =
     (if x < xmin interp \<or> x > xmax interp then raise (Gsl_error ''interpolation error'')
      else call (Interp_eval 1)
             (case itype interp of
                LINEAR \<Rightarrow> linear_eval_deriv xa ya (isize interp) x a
              | SPLINE \<Rightarrow> cspline_eval_deriv (cstate interp) xa ya (isize interp) x a))"

definition gsl_interp_eval_deriv2 ::
  "gsl_interp \<Rightarrow> real list \<Rightarrow> real list \<Rightarrow> real \<Rightarrow> gsl_interp_accel \<Rightarrow> real run" where
  "gsl_interp_eval_deriv2 interp xa ya x a =
     (if x < xmin interp \<or> x > xmax interp then raise (Gsl_error ''interpolation error'')
      else call (Interp_eval 2)
             (case itype interp of
                LINEAR \<Rightarrow> linear_eval_deriv2 xa ya (isize interp) x a
              | SPLINE \<Rightarrow> cspline_eval_deriv2 (cstate interp) xa ya (isize interp) x a))"

definition gsl_interp_free :: "gsl_interp \<Rightarrow> unit run" where
  "gsl_interp_free interp = call Interp_free ()"

definition gsl_interp_accel_free :: "gsl_interp_accel \<Rightarrow> unit run" where
  "gsl_interp_accel_free a = call Accel_free ()"

section \<open>The scalar interpolation primitive\<close>

definition interpolate ::
  "tridiag_solver \<Rightarrow> real list \<Rightarrow> real list \<Rightarrow> real \<Rightarrow> interpolation \<Rightarrow> int \<Rightarrow> real run" where
  "interpolate solve points times' time interp d =
     (let numPoints = length points
      in if numPoints < 2
         then raise (Invalid_argument ''At least two points must be input to interpolate over.'')
         else if length points \<noteq> length times'
         then raise (Invalid_argument
                ''Invalid gsl_interp_type data, must have the same number of points as times.'')
         else if time < hd times' \<or> time > last times'
         then raise (Invalid_argument ''Invalid gsl_interp_type time, outside of input times.'')
         else
           and_then (gsl_interp_alloc interp numPoints) (\<lambda>interpolator0.
           and_then (gsl_interp_init solve interpolator0 times' points numPoints) (\<lambda>interpolator.
           and_then gsl_interp_accel_alloc (\<lambda>acc.
           and_then
             (if d = 0 then gsl_interp_eval interpolator times' points time acc
              else if d = 1 then gsl_interp_eval_deriv interpolator times' points time acc
              else if d = 2 then gsl_interp_eval_deriv2 interpolator times' points time acc
              else raise (Invalid_argument ''Invalid derivitive option, must be 0, 1 or 2.''))
             (\<lambda>result.
           and_then (gsl_interp_free interpolator) (\<lambda>_.
           and_then (gsl_interp_accel_free acc) (\<lambda>_.
           succeed result)))))))"

section \<open>Tabulated position and velocity\<close>

definition getPosition ::
  "tridiag_solver \<Rightarrow> real list list \<Rightarrow> real list \<Rightarrow> real \<Rightarrow> interpolation \<Rightarrow> real list run" where
  "getPosition solve coords times' time interp =
     (if length coords \<noteq> 3
      then raise (Invalid_argument ''Invalid input positions, expected three vectors.'')
      else
        and_then (interpolate solve (coords ! 0) times' time interp 0) (\<lambda>x.
        and_then (interpolate solve (coords ! 1) times' time interp 0) (\<lambda>y.
        and_then (interpolate solve (coords ! 2) times' time interp 0) (\<lambda>z.
        succeed [x, y, z]))))"

definition getVelocity ::
  "tridiag_solver \<Rightarrow> real list list \<Rightarrow> real list \<Rightarrow> real \<Rightarrow> interpolation \<Rightarrow> real list run" where
  "getVelocity solve coords times' time interp =
     (if length coords \<noteq> 3
      then raise (Invalid_argument ''Invalid input positions, expected three vectors.'')
      else
        and_then (interpolate solve (coords ! 0) times' time interp 1) (\<lambda>x.
        and_then (interpolate solve (coords ! 1) times' time interp 1) (\<lambda>y.
        and_then (interpolate solve (coords ! 2) times' time interp 1) (\<lambda>z.
        succeed [x, y, z]))))"

section \<open>Polynomial evaluation\<close>

text \<open>
  \<^verbatim>\<open>gsl_poly_eval_derivs\<close> (GSL, \<^verbatim>\<open>poly/deriv.c\<close>) fills \<^verbatim>\<open>res[0..lenres-1]\<close> with the
  value and the derivatives of the polynomial \<^verbatim>\<open>c[0] + c[1] x + ... + c[lenc-1] x^(lenc-1)\<close>.
  It has three loops: the first stores the leading coefficient in the first
  \<^verbatim>\<open>min lenres lenc\<close> cells and zero in the others, the second is a repeated Horner
  scheme over the cells in place, the third multiplies cell \<^verbatim>\<open>i\<close> by \<^verbatim>\<open>i!\<close>.
  \<^verbatim>\<open>evaluatePolynomial\<close> calls it with \<^verbatim>\<open>lenc \<ge> 1\<close> and \<^verbatim>\<open>lenres \<ge> 1\<close> only, so
  \<^verbatim>\<open>lenc - 1\<close> does not wrap and \<^verbatim>\<open>res[0]\<close> exists.
\<close>

function derivs_init_loop ::
  "real list \<Rightarrow> nat \<Rightarrow> nat \<Rightarrow> nat \<Rightarrow> nat \<Rightarrow> nat \<Rightarrow> real list \<Rightarrow> real list \<times> nat" where
  "derivs_init_loop c lenc lenres i n nmax res =
     (if i < lenres
      then (if n < lenc
            then derivs_init_loop c lenc lenres (i + 1) (n + 1) n (res[i := c ! (lenc - 1)])
            else derivs_init_loop c lenc lenres (i + 1) n nmax (res[i := 0]))
      else (res, nmax))"
  by pat_completeness auto
termination
  by (relation "measure (\<lambda>(c, lenc, lenres, i, n, nmax, res). lenres - i)") auto

function derivs_horner_inner :: "real \<Rightarrow> nat \<Rightarrow> nat \<Rightarrow> real list \<Rightarrow> real list" where
  "derivs_horner_inner x lmax l res =
     (if l \<le> lmax
      then derivs_horner_inner x lmax (l + 1) (res[l := x * res ! l + res ! (l - 1)])
      else res)"
  by pat_completeness auto
termination
  by (relation "measure (\<lambda>(x, lmax, l, res). lmax + 1 - l)") auto

function derivs_horner_loop ::
  "real list \<Rightarrow> nat \<Rightarrow> real \<Rightarrow> nat \<Rightarrow> nat \<Rightarrow> real list \<Rightarrow> real list" where
  "derivs_horner_loop c lenc x nmax i res =
     (if i < lenc - 1
      then (let k = (lenc - 1) - i;
                res0 = res[0 := x * res ! 0 + c ! (k - 1)];
                lmax = (if nmax < k then nmax else k - 1)
            in derivs_horner_loop c lenc x nmax (i + 1) (derivs_horner_inner x lmax 1 res0))
      else res)"
  by pat_completeness auto
termination
  by (relation "measure (\<lambda>(c, lenc, x, nmax, i, res). lenc - 1 - i)") auto

function derivs_factorial_loop :: "nat \<Rightarrow> nat \<Rightarrow> real \<Rightarrow> real list \<Rightarrow> real list" where
  "derivs_factorial_loop nmax i f res =
     (if i \<le> nmax
      then (let f' = f * real i
            in derivs_factorial_loop nmax (i + 1) f' (res[i := res ! i * f']))
      else res)"
  by pat_completeness auto
termination
  by (relation "measure (\<lambda>(nmax, i, f, res). nmax + 1 - i)") auto

definition gsl_poly_eval_derivs ::
  "real list \<Rightarrow> nat \<Rightarrow> real \<Rightarrow> real list \<Rightarrow> nat \<Rightarrow> real list run" where
  "gsl_poly_eval_derivs c lenc x res lenres =
     (case derivs_init_loop c lenc lenres 0 0 0 res of
        (res1, nmax) \<Rightarrow>
          call Poly_eval_derivs
            (derivs_factorial_loop nmax 2 1 (derivs_horner_loop c lenc x nmax 0 res1)))"

text \<open>
  The buffer \<^verbatim>\<open>vector<double> derivatives(d + 1)\<close>. The sum \<^verbatim>\<open>d + 1\<close> is a 32-bit signed
  addition, which wraps from \<^verbatim>\<open>INT_MAX\<close> to \<^verbatim>\<open>INT_MIN\<close>; the constructor takes a
  \<^verbatim>\<open>size_t\<close>, so the \<^verbatim>\<open>int\<close> is converted modulo \<open>2\<^sup>6\<^sup>4\<close>, and it throws
  \<^verbatim>\<open>std::length_error\<close> for a size above \<^verbatim>\<open>max_size()\<close>, which is \<open>2\<^sup>6\<^sup>0 - 1\<close> for 8-byte
  elements. Otherwise the elements are zero.
\<close>

definition INT_MAX :: int where
  "INT_MAX = 2147483647"

definition int_add :: "int \<Rightarrow> int \<Rightarrow> int" where
  "int_add a b = (a + b + 2147483648) mod 4294967296 - 2147483648"

definition size_t_of_int :: "int \<Rightarrow> nat" where
  "size_t_of_int k = nat (k mod 18446744073709551616)"

definition vector_max_size :: nat where
  "vector_max_size = 1152921504606846975"

definition vector_of_size :: "nat \<Rightarrow> real list run" where
  "vector_of_size n =
     (if n > vector_max_size
      then raise (Length_error ''cannot create std::vector larger than max_size()'')
      else succeed (replicate n 0))"

definition evaluatePolynomial :: "real list \<Rightarrow> real \<Rightarrow> int \<Rightarrow> real run" where
  "evaluatePolynomial coeffs time d =
     (if coeffs = []
      then raise (Invalid_argument ''Invalid input coeffs, must be non-empty.'')
      else if d < 0
      then raise (Invalid_argument ''Invalid derivative degree, must be non-negative.'')
      else
        and_then (vector_of_size (size_t_of_int (int_add d 1))) (\<lambda>derivatives0.
        and_then
          (gsl_poly_eval_derivs coeffs (length coeffs) time derivatives0 (length derivatives0))
          (\<lambda>derivatives. succeed (last derivatives))))"

text \<open>
  The overloads of \<^verbatim>\<open>getPosition\<close> and \<^verbatim>\<open>getVelocity\<close> that take coefficients carry the
  suffix \<open>_poly\<close>.
\<close>

definition getPosition_poly :: "real list list \<Rightarrow> real \<Rightarrow> real list run" where
  "getPosition_poly coeffs time =
     (if length coeffs \<noteq> 3
      then raise (Invalid_argument ''Invalid input coeffs, expected three vectors.'')
      else
        and_then (evaluatePolynomial (coeffs ! 0) time 0) (\<lambda>x.
        and_then (evaluatePolynomial (coeffs ! 1) time 0) (\<lambda>y.
        and_then (evaluatePolynomial (coeffs ! 2) time 0) (\<lambda>z.
        succeed [x, y, z]))))"

definition getVelocity_poly :: "real list list \<Rightarrow> real \<Rightarrow> real list run" where
  "getVelocity_poly coeffs time =
     (if length coeffs \<noteq> 3
      then raise (Invalid_argument ''Invalid input coeffs, expected three vectors.'')
      else
        and_then (evaluatePolynomial (coeffs ! 0) time 1) (\<lambda>x.
        and_then (evaluatePolynomial (coeffs ! 1) time 1) (\<lambda>y.
        and_then (evaluatePolynomial (coeffs ! 2) time 1) (\<lambda>z.
        succeed [x, y, z]))))"

section \<open>Tabulated rotation and angular velocity\<close>

text \<open>
  Eigen's \<^verbatim>\<open>normalize()\<close> (version 3.3 and later) divides the coefficients by the norm
  when the squared norm is positive and leaves them as they are otherwise. It serves both
  \<^verbatim>\<open>Quaterniond::normalize\<close> and the \<^verbatim>\<open>Map<MatrixXd>\<close> over the result. The name carries
  the suffix \<open>_vec\<close>.
\<close>

definition squaredNorm :: "real list \<Rightarrow> real" where
  "squaredNorm v = sum_list (map (\<lambda>x. x * x) v)"

definition normalize_vec :: "real list \<Rightarrow> real list" where
  "normalize_vec v = (let z = squaredNorm v in if z > 0 then map (\<lambda>x. x / sqrt z) v else v)"

text \<open>
  The loop over the samples of channel 0. It reads index \<open>i\<close> of all four channels
  through the unchecked \<^verbatim>\<open>operator[]\<close>, normalizes the quaternion and writes the four
  components back.
\<close>

function normalize_samples ::
  "nat \<Rightarrow> real list \<times> real list \<times> real list \<times> real list \<Rightarrow>
   (real list \<times> real list \<times> real list \<times> real list) run" where
  "normalize_samples i (r0, r1, r2, r3) =
     (if i < length r0
      then (if i < length r1 \<and> i < length r2 \<and> i < length r3
            then (let quat = normalize_vec [r0 ! i, r1 ! i, r2 ! i, r3 ! i]
                  in case normalize_samples (i + 1)
                            (r0[i := quat ! 0], r1[i := quat ! 1],
                             r2[i := quat ! 2], r3[i := quat ! 3]) of
                       (es, r) \<Rightarrow> (Quaternion_normalize # es, r))
            else raise Out_of_range_access)
      else succeed (r0, r1, r2, r3))"
  by pat_completeness auto
termination
  by (relation "measure (\<lambda>(i, r0, r1, r2, r3). length r0 - i)") auto

definition getRotation ::
  "tridiag_solver \<Rightarrow> real list list \<Rightarrow> real list \<Rightarrow> real \<Rightarrow> interpolation \<Rightarrow> real list run" where
  "getRotation solve rotations times' time interp =
     (if length rotations \<noteq> 4
      then raise (Invalid_argument ''Invalid input rotations, expected four vectors.'')
      else
        and_then
          (normalize_samples 0 (rotations ! 0, rotations ! 1, rotations ! 2, rotations ! 3))
          (\<lambda>(r0, r1, r2, r3).
        and_then (interpolate solve r0 times' time interp 0) (\<lambda>w.
        and_then (interpolate solve r1 times' time interp 0) (\<lambda>x.
        and_then (interpolate solve r2 times' time interp 0) (\<lambda>y.
        and_then (interpolate solve r3 times' time interp 0) (\<lambda>z.
        call Vector_normalize (normalize_vec [w, x, y, z])))))))"

definition getAngularVelocity ::
  "tridiag_solver \<Rightarrow> real list list \<Rightarrow> real list \<Rightarrow> real \<Rightarrow> interpolation \<Rightarrow> real list run" where
  "getAngularVelocity solve rotations times' time interp =
     (if length rotations \<noteq> 4
      then raise (Invalid_argument ''Invalid input rotations, expected four vectors.'')
      else
        and_then
          (normalize_samples 0 (rotations ! 0, rotations ! 1, rotations ! 2, rotations ! 3))
          (\<lambda>(r0, r1, r2, r3).
        and_then (interpolate solve r0 times' time interp 1) (\<lambda>w.
        and_then (interpolate solve r1 times' time interp 1) (\<lambda>x.
        and_then (interpolate solve r2 times' time interp 1) (\<lambda>y.
        and_then (interpolate solve r3 times' time interp 1) (\<lambda>z.
        call Vector_normalize (normalize_vec [w, x, y, z])))))))"

section \<open>A solver for the closed examples\<close>

text \<open>
  The \<open>L D L\<^sup>T\<close> elimination that GSL's symmetric tridiagonal solver performs: the pivots
  \<open>alpha\<close>, the forward substitution \<open>z\<close> and the back substitution. It instantiates the
  solver parameter wherever a closed term is needed.
\<close>

fun tridiag_alpha :: "real list \<Rightarrow> real list \<Rightarrow> nat \<Rightarrow> real" where
  "tridiag_alpha diag offdiag 0 = diag ! 0"
| "tridiag_alpha diag offdiag (Suc i) =
     diag ! Suc i - offdiag ! i * (offdiag ! i / tridiag_alpha diag offdiag i)"

fun tridiag_z :: "real list \<Rightarrow> real list \<Rightarrow> real list \<Rightarrow> nat \<Rightarrow> real" where
  "tridiag_z diag offdiag b 0 = b ! 0"
| "tridiag_z diag offdiag b (Suc i) =
     b ! Suc i - offdiag ! i / tridiag_alpha diag offdiag i * tridiag_z diag offdiag b i"

fun tridiag_back :: "real list \<Rightarrow> real list \<Rightarrow> real list \<Rightarrow> nat \<Rightarrow> nat \<Rightarrow> real" where
  "tridiag_back diag offdiag b N 0 =
     tridiag_z diag offdiag b (N - 1) / tridiag_alpha diag offdiag (N - 1)"
| "tridiag_back diag offdiag b N (Suc k) =
     tridiag_z diag offdiag b (N - 2 - k) / tridiag_alpha diag offdiag (N - 2 - k)
       - offdiag ! (N - 2 - k) / tridiag_alpha diag offdiag (N - 2 - k)
         * tridiag_back diag offdiag b N k"

definition solve_symm_tridiag :: tridiag_solver where
  "solve_symm_tridiag diag offdiag b =
     (let N = length diag in map (\<lambda>i. tridiag_back diag offdiag b N (N - 1 - i)) [0..<N])"

section \<open>Notions used in the statements\<close>

text \<open>The accelerator as \<^const>\<open>gsl_interp_accel_alloc\<close> returns it.\<close>

definition accel0 :: gsl_interp_accel where
  "accel0 = \<lparr>cache = 0, miss_count = 0, hit_count = 0\<rparr>"

text \<open>
  The value \<^const>\<open>interpolate\<close> returns when every check passes: the evaluator of the
  chosen type and order, on the data as \<^const>\<open>gsl_interp_init\<close> stored it.
\<close>

definition interp_value ::
  "tridiag_solver \<Rightarrow> real list \<Rightarrow> real list \<Rightarrow> real \<Rightarrow> interpolation \<Rightarrow> int \<Rightarrow> real" where
  "interp_value solve points times' time interp d =
     (let n = length points; c = cspline_init solve times' points n
      in case interp of
           LINEAR \<Rightarrow>
             (if d = 0 then linear_eval times' points n time accel0
              else if d = 1 then linear_eval_deriv times' points n time accel0
              else linear_eval_deriv2 times' points n time accel0)
         | SPLINE \<Rightarrow>
             (if d = 0 then cspline_eval c times' points n time accel0
              else if d = 1 then cspline_eval_deriv c times' points n time accel0
              else cspline_eval_deriv2 c times' points n time accel0))"

text \<open>The four preconditions of the scalar interpolation primitive, negated.\<close>

definition precondition_violated :: "real list \<Rightarrow> real list \<Rightarrow> real \<Rightarrow> int \<Rightarrow> bool" where
  "precondition_violated points times' time d \<longleftrightarrow>
     length points < 2 \<or> length points \<noteq> length times'
     \<or> time < hd times' \<or> time > last times' \<or> (d \<noteq> 0 \<and> d \<noteq> 1 \<and> d \<noteq> 2)"

text \<open>
  The contents of a channel \<open>r\<close> after the per-sample loop has run from index \<open>i\<close>: the
  \<open>k\<close>-th component of the normalized quaternion at the indices the loop visits, the old
  value elsewhere.
\<close>

definition renormalized ::
  "nat \<Rightarrow> real list \<Rightarrow> real list \<Rightarrow> real list \<Rightarrow> real list \<Rightarrow> nat \<Rightarrow> real list \<Rightarrow> real list" where
  "renormalized i r0 r1 r2 r3 k r =
     map (\<lambda>j. if i \<le> j \<and> j < length r0
              then normalize_vec [r0 ! j, r1 ! j, r2 ! j, r3 ! j] ! k else r ! j) [0..<length r]"



definition euclidean_norm :: "real list \<Rightarrow> real" where
  "euclidean_norm v = sqrt (squaredNorm v)"

text \<open>
  The polynomial \<open>c\<^sub>0 + c\<^sub>1 t + \<dots> + c\<^sub>n t\<^sup>n\<close> of a coefficient sequence, the closed form of
  its \<open>d\<close>-th derivative, and what it means for one function to be the \<open>k\<close>-th derivative
  of another.
\<close>

definition poly_value :: "real list \<Rightarrow> real \<Rightarrow> real" where
  "poly_value c t = (\<Sum>i<length c. c ! i * t ^ i)"

definition poly_derivative :: "nat \<Rightarrow> real list \<Rightarrow> real \<Rightarrow> real" where
  "poly_derivative d c t =
     (\<Sum>i = d..<length c. of_nat (fact d * (i choose d)) * c ! i * t ^ (i - d))"


text \<open>
  The content of cell \<open>l\<close> of the repeated Horner scheme once the coefficients from the
  leading one down to \<open>c\<^sub>j\<close> have been consumed.
\<close>

definition horner_cell :: "real list \<Rightarrow> real \<Rightarrow> nat \<Rightarrow> nat \<Rightarrow> real" where
  "horner_cell c x l j =
     (\<Sum>i = j..<length c. of_nat ((i - j + l) choose l) * c ! i * x ^ (i - j))"


section \<open>Binary64 arithmetic\<close>

text \<open>
  Where a statement is about the exact value a call returns, the idealisation of
  \<^verbatim>\<open>double\<close> as \<^typ>\<open>real\<close> decides nothing, and the arithmetic of the machine is modelled:
  IEEE 754 binary64 with rounding to nearest, ties to even. A value is a real number, an
  infinity or a NaN; the sign of a zero is not represented, and a division of a non-zero
  value by zero takes the sign of the dividend. Every operation of the source rounds its
  exact result on its own: no multiplication is fused with an addition.
\<close>

datatype double = Finite real | PlusInfinity | MinusInfinity | NaN

definition round_half_even :: "real \<Rightarrow> int" where
  "round_half_even y =
     (let q = \<lfloor>y\<rfloor>
      in if y - of_int q < 1 / 2 then q
         else if 1 / 2 < y - of_int q then q + 1
         else if even q then q else q + 1)"

text \<open>
  The exponent \<open>e\<close> with \<open>2\<^sup>e \<le> |x| < 2\<^sup>e\<^sup>+\<^sup>1\<close>, at least \<open>-1022\<close>: below \<open>2\<^sup>-\<^sup>1\<^sup>0\<^sup>2\<^sup>2\<close> the values
  are subnormal and share the spacing \<open>2\<^sup>-\<^sup>1\<^sup>0\<^sup>7\<^sup>4\<close>.
\<close>

definition binade :: "real \<Rightarrow> int" where
  "binade x =
     (case find (\<lambda>e. 2 powi e \<le> \<bar>x\<bar> \<and> \<bar>x\<bar> < 2 powi (e + 1)) [- 1022..1023] of
        Some e \<Rightarrow> e
      | None \<Rightarrow> - 1022)"

text \<open>
  Rounding to 53 significant bits. A value of magnitude \<open>2\<^sup>1\<^sup>0\<^sup>2\<^sup>4 - 2\<^sup>9\<^sup>7\<^sup>0\<close> or more, half-way
  between the largest finite value and \<open>2\<^sup>1\<^sup>0\<^sup>2\<^sup>4\<close>, rounds to an infinity.
\<close>

definition binary64_round :: "real \<Rightarrow> double" where
  "binary64_round x =
     (if 2 powi 1024 - 2 powi 970 \<le> \<bar>x\<bar>
      then (if 0 < x then PlusInfinity else MinusInfinity)
      else Finite (of_int (round_half_even (x / 2 powi (binade x - 52)))
                   * 2 powi (binade x - 52)))"

text \<open>The real numbers that are binary64 values, and the doubles that hold one.\<close>

definition is_binary64 :: "real \<Rightarrow> bool" where
  "is_binary64 r \<longleftrightarrow> binary64_round r = Finite r"

definition finite_double :: "double \<Rightarrow> bool" where
  "finite_double x = (case x of Finite r \<Rightarrow> is_binary64 r | _ \<Rightarrow> False)"

fun double_add :: "double \<Rightarrow> double \<Rightarrow> double" where
  "double_add (Finite a) (Finite b) = binary64_round (a + b)"
| "double_add NaN _ = NaN"
| "double_add _ NaN = NaN"
| "double_add PlusInfinity MinusInfinity = NaN"
| "double_add MinusInfinity PlusInfinity = NaN"
| "double_add PlusInfinity _ = PlusInfinity"
| "double_add _ PlusInfinity = PlusInfinity"
| "double_add MinusInfinity _ = MinusInfinity"
| "double_add _ MinusInfinity = MinusInfinity"

fun double_sub :: "double \<Rightarrow> double \<Rightarrow> double" where
  "double_sub (Finite a) (Finite b) = binary64_round (a - b)"
| "double_sub NaN _ = NaN"
| "double_sub _ NaN = NaN"
| "double_sub PlusInfinity PlusInfinity = NaN"
| "double_sub MinusInfinity MinusInfinity = NaN"
| "double_sub PlusInfinity _ = PlusInfinity"
| "double_sub _ PlusInfinity = MinusInfinity"
| "double_sub MinusInfinity _ = MinusInfinity"
| "double_sub _ MinusInfinity = PlusInfinity"

fun double_mul :: "double \<Rightarrow> double \<Rightarrow> double" where
  "double_mul (Finite a) (Finite b) = binary64_round (a * b)"
| "double_mul NaN _ = NaN"
| "double_mul _ NaN = NaN"
| "double_mul (Finite a) PlusInfinity =
     (if a = 0 then NaN else if 0 < a then PlusInfinity else MinusInfinity)"
| "double_mul (Finite a) MinusInfinity =
     (if a = 0 then NaN else if 0 < a then MinusInfinity else PlusInfinity)"
| "double_mul PlusInfinity (Finite b) =
     (if b = 0 then NaN else if 0 < b then PlusInfinity else MinusInfinity)"
| "double_mul MinusInfinity (Finite b) =
     (if b = 0 then NaN else if 0 < b then MinusInfinity else PlusInfinity)"
| "double_mul PlusInfinity PlusInfinity = PlusInfinity"
| "double_mul PlusInfinity MinusInfinity = MinusInfinity"
| "double_mul MinusInfinity PlusInfinity = MinusInfinity"
| "double_mul MinusInfinity MinusInfinity = PlusInfinity"

fun double_div :: "double \<Rightarrow> double \<Rightarrow> double" where
  "double_div (Finite a) (Finite b) =
     (if b = 0 then (if a = 0 then NaN else if 0 < a then PlusInfinity else MinusInfinity)
      else binary64_round (a / b))"
| "double_div NaN _ = NaN"
| "double_div _ NaN = NaN"
| "double_div (Finite a) PlusInfinity = Finite 0"
| "double_div (Finite a) MinusInfinity = Finite 0"
| "double_div PlusInfinity (Finite b) = (if 0 \<le> b then PlusInfinity else MinusInfinity)"
| "double_div MinusInfinity (Finite b) = (if 0 \<le> b then MinusInfinity else PlusInfinity)"
| "double_div PlusInfinity PlusInfinity = NaN"
| "double_div PlusInfinity MinusInfinity = NaN"
| "double_div MinusInfinity PlusInfinity = NaN"
| "double_div MinusInfinity MinusInfinity = NaN"

text \<open>The comparisons \<^verbatim>\<open>x > 0.0\<close> and \<^verbatim>\<open>x != 0.0\<close>; a NaN is not greater than zero and differs from it.\<close>

definition double_gt0 :: "double \<Rightarrow> bool" where
  "double_gt0 x = (case x of Finite r \<Rightarrow> 0 < r | PlusInfinity \<Rightarrow> True | _ \<Rightarrow> False)"

definition double_ne0 :: "double \<Rightarrow> bool" where
  "double_ne0 x = (case x of Finite r \<Rightarrow> r \<noteq> 0 | _ \<Rightarrow> True)"

section \<open>The interpolation primitive in binary64\<close>

text \<open>
  The routines of the interpolation primitive once more, with the arithmetic of the
  evaluators and of the spline initialisation in binary64. The arrays hold finite
  values, given as reals; the checks and the bracket search compare them and are the
  same as above.
\<close>

type_synonym tridiag_solver_binary64 =
  "double list \<Rightarrow> double list \<Rightarrow> double list \<Rightarrow> double list"

record gsl_interp_binary64 =
  itype64 :: interpolation
  xmin64 :: real
  xmax64 :: real
  isize64 :: nat
  cstate64 :: "double list"

definition gsl_interp_alloc_binary64 :: "interpolation \<Rightarrow> nat \<Rightarrow> gsl_interp_binary64 run" where
  "gsl_interp_alloc_binary64 T n =
     (if n < min_size T
      then raise (Gsl_error ''insufficient number of points for interpolation type'')
      else call Interp_alloc
             \<lparr>itype64 = T, xmin64 = 0, xmax64 = 0, isize64 = n,
              cstate64 = replicate n (Finite 0)\<rparr>)"

definition cspline_init_binary64 ::
  "tridiag_solver_binary64 \<Rightarrow> real list \<Rightarrow> real list \<Rightarrow> nat \<Rightarrow> double list" where
  "cspline_init_binary64 solve xa ya n =
     (let max_index = n - 1;
          sys_size = max_index - 1;
          h = (\<lambda>i. double_sub (Finite (xa ! (i + 1))) (Finite (xa ! i)));
          ydiff = (\<lambda>i. double_sub (Finite (ya ! (i + 1))) (Finite (ya ! i)));
          g_inv = (\<lambda>i. if double_ne0 (h i) then double_div (Finite 1) (h i) else Finite 0);
          offdiag = map (\<lambda>i. h (i + 1)) [0..<sys_size];
          diag = map (\<lambda>i. double_mul (Finite 2) (double_add (h (i + 1)) (h i))) [0..<sys_size];
          g = map (\<lambda>i. double_mul (Finite 3)
                         (double_sub (double_mul (ydiff (i + 1)) (g_inv (i + 1)))
                                     (double_mul (ydiff i) (g_inv i)))) [0..<sys_size]
      in if sys_size = 1 then [Finite 0, double_div (g ! 0) (diag ! 0), Finite 0]
         else Finite 0 # map (\<lambda>i. solve diag (take (sys_size - 1) offdiag) g ! i) [0..<sys_size]
                @ [Finite 0])"

definition gsl_interp_init_binary64 ::
  "tridiag_solver_binary64 \<Rightarrow> gsl_interp_binary64 \<Rightarrow> real list \<Rightarrow> real list \<Rightarrow> nat \<Rightarrow>
   gsl_interp_binary64 run" where
  "gsl_interp_init_binary64 solve interp x_array y_array n =
     (if n \<noteq> isize64 interp
      then raise (Gsl_error ''data must match size of interpolation object'')
      else if \<not> strictly_increasing x_array n
      then raise (Gsl_error ''x values must be strictly increasing'')
      else call Interp_init
             (interp\<lparr>xmin64 := x_array ! 0, xmax64 := x_array ! (n - 1),
                     cstate64 := (case itype64 interp of
                                    LINEAR \<Rightarrow> cstate64 interp
                                  | SPLINE \<Rightarrow> cspline_init_binary64 solve x_array y_array n)\<rparr>))"

definition linear_eval_binary64 ::
  "real list \<Rightarrow> real list \<Rightarrow> nat \<Rightarrow> real \<Rightarrow> gsl_interp_accel \<Rightarrow> double" where
  "linear_eval_binary64 x_array y_array n x a =
     (let index = cache (gsl_interp_accel_find a x_array n x);
          x_lo = Finite (x_array ! index);
          x_hi = Finite (x_array ! (index + 1));
          y_lo = Finite (y_array ! index);
          y_hi = Finite (y_array ! (index + 1));
          dx = double_sub x_hi x_lo
      in if double_gt0 dx
         then double_add y_lo
                (double_mul (double_div (double_sub (Finite x) x_lo) dx) (double_sub y_hi y_lo))
         else Finite 0)"

definition linear_eval_deriv_binary64 ::
  "real list \<Rightarrow> real list \<Rightarrow> nat \<Rightarrow> real \<Rightarrow> gsl_interp_accel \<Rightarrow> double" where
  "linear_eval_deriv_binary64 x_array y_array n x a =
     (let index = cache (gsl_interp_accel_find a x_array n x);
          x_lo = Finite (x_array ! index);
          x_hi = Finite (x_array ! (index + 1));
          y_lo = Finite (y_array ! index);
          y_hi = Finite (y_array ! (index + 1));
          dx = double_sub x_hi x_lo;
          dy = double_sub y_hi y_lo
      in if double_gt0 dx then double_div dy dx else Finite 0)"

definition linear_eval_deriv2_binary64 ::
  "real list \<Rightarrow> real list \<Rightarrow> nat \<Rightarrow> real \<Rightarrow> gsl_interp_accel \<Rightarrow> double" where
  "linear_eval_deriv2_binary64 x_array y_array n x a = Finite 0"

definition coeff_calc_binary64 ::
  "double list \<Rightarrow> double \<Rightarrow> double \<Rightarrow> nat \<Rightarrow> double \<times> double \<times> double" where
  "coeff_calc_binary64 c_array dy dx index =
     (let c_i = c_array ! index;
          c_ip1 = c_array ! (index + 1)
      in (double_sub (double_div dy dx)
            (double_div (double_mul dx (double_add c_ip1 (double_mul (Finite 2) c_i))) (Finite 3)),
          c_i,
          double_div (double_sub c_ip1 c_i) (double_mul (Finite 3) dx)))"

definition cspline_eval_binary64 ::
  "double list \<Rightarrow> real list \<Rightarrow> real list \<Rightarrow> nat \<Rightarrow> real \<Rightarrow> gsl_interp_accel \<Rightarrow> double" where
  "cspline_eval_binary64 c x_array y_array n x a =
     (let index = cache (gsl_interp_accel_find a x_array n x);
          x_hi = Finite (x_array ! (index + 1));
          x_lo = Finite (x_array ! index);
          dx = double_sub x_hi x_lo
      in if double_gt0 dx
         then (let y_lo = Finite (y_array ! index);
                   y_hi = Finite (y_array ! (index + 1));
                   dy = double_sub y_hi y_lo;
                   delx = double_sub (Finite x) x_lo
               in case coeff_calc_binary64 c dy dx index of
                    (b_i, c_i, d_i) \<Rightarrow>
                      double_add y_lo
                        (double_mul delx
                           (double_add b_i
                              (double_mul delx (double_add c_i (double_mul delx d_i))))))
         else Finite 0)"

definition cspline_eval_deriv_binary64 ::
  "double list \<Rightarrow> real list \<Rightarrow> real list \<Rightarrow> nat \<Rightarrow> real \<Rightarrow> gsl_interp_accel \<Rightarrow> double" where
  "cspline_eval_deriv_binary64 c x_array y_array n x a =
     (let index = cache (gsl_interp_accel_find a x_array n x);
          x_hi = Finite (x_array ! (index + 1));
          x_lo = Finite (x_array ! index);
          dx = double_sub x_hi x_lo
      in if double_gt0 dx
         then (let y_lo = Finite (y_array ! index);
                   y_hi = Finite (y_array ! (index + 1));
                   dy = double_sub y_hi y_lo;
                   delx = double_sub (Finite x) x_lo
               in case coeff_calc_binary64 c dy dx index of
                    (b_i, c_i, d_i) \<Rightarrow>
                      double_add b_i
                        (double_mul delx
                           (double_add (double_mul (Finite 2) c_i)
                              (double_mul (double_mul (Finite 3) d_i) delx))))
         else Finite 0)"

definition cspline_eval_deriv2_binary64 ::
  "double list \<Rightarrow> real list \<Rightarrow> real list \<Rightarrow> nat \<Rightarrow> real \<Rightarrow> gsl_interp_accel \<Rightarrow> double" where
  "cspline_eval_deriv2_binary64 c x_array y_array n x a =
     (let index = cache (gsl_interp_accel_find a x_array n x);
          x_hi = Finite (x_array ! (index + 1));
          x_lo = Finite (x_array ! index);
          dx = double_sub x_hi x_lo
      in if double_gt0 dx
         then (let y_lo = Finite (y_array ! index);
                   y_hi = Finite (y_array ! (index + 1));
                   dy = double_sub y_hi y_lo;
                   delx = double_sub (Finite x) x_lo
               in case coeff_calc_binary64 c dy dx index of
                    (b_i, c_i, d_i) \<Rightarrow>
                      double_add (double_mul (Finite 2) c_i)
                        (double_mul (double_mul (Finite 6) d_i) delx))
         else Finite 0)"

definition gsl_interp_eval_binary64 ::
  "gsl_interp_binary64 \<Rightarrow> real list \<Rightarrow> real list \<Rightarrow> real \<Rightarrow> gsl_interp_accel \<Rightarrow> double run" where
  "gsl_interp_eval_binary64 interp xa ya x a =
     (if x < xmin64 interp \<or> x > xmax64 interp then raise (Gsl_error ''interpolation error'')
      else call (Interp_eval 0)
             (case itype64 interp of
                LINEAR \<Rightarrow> linear_eval_binary64 xa ya (isize64 interp) x a
              | SPLINE \<Rightarrow> cspline_eval_binary64 (cstate64 interp) xa ya (isize64 interp) x a))"

definition gsl_interp_eval_deriv_binary64 ::
  "gsl_interp_binary64 \<Rightarrow> real list \<Rightarrow> real list \<Rightarrow> real \<Rightarrow> gsl_interp_accel \<Rightarrow> double run" where
  "gsl_interp_eval_deriv_binary64 interp xa ya x a =
     (if x < xmin64 interp \<or> x > xmax64 interp then raise (Gsl_error ''interpolation error'')
      else call (Interp_eval 1)
             (case itype64 interp of
                LINEAR \<Rightarrow> linear_eval_deriv_binary64 xa ya (isize64 interp) x a
              | SPLINE \<Rightarrow>
                  cspline_eval_deriv_binary64 (cstate64 interp) xa ya (isize64 interp) x a))"

definition gsl_interp_eval_deriv2_binary64 ::
  "gsl_interp_binary64 \<Rightarrow> real list \<Rightarrow> real list \<Rightarrow> real \<Rightarrow> gsl_interp_accel \<Rightarrow> double run" where
  "gsl_interp_eval_deriv2_binary64 interp xa ya x a =
     (if x < xmin64 interp \<or> x > xmax64 interp then raise (Gsl_error ''interpolation error'')
      else call (Interp_eval 2)
             (case itype64 interp of
                LINEAR \<Rightarrow> linear_eval_deriv2_binary64 xa ya (isize64 interp) x a
              | SPLINE \<Rightarrow>
                  cspline_eval_deriv2_binary64 (cstate64 interp) xa ya (isize64 interp) x a))"

definition gsl_interp_free_binary64 :: "gsl_interp_binary64 \<Rightarrow> unit run" where
  "gsl_interp_free_binary64 interp = call Interp_free ()"

definition interpolate_binary64 ::
  "tridiag_solver_binary64 \<Rightarrow> real list \<Rightarrow> real list \<Rightarrow> real \<Rightarrow> interpolation \<Rightarrow> int \<Rightarrow>
   double run" where
  "interpolate_binary64 solve points times' time interp d =
     (let numPoints = length points
      in if numPoints < 2
         then raise (Invalid_argument ''At least two points must be input to interpolate over.'')
         else if length points \<noteq> length times'
         then raise (Invalid_argument
                ''Invalid gsl_interp_type data, must have the same number of points as times.'')
         else if time < hd times' \<or> time > last times'
         then raise (Invalid_argument ''Invalid gsl_interp_type time, outside of input times.'')
         else
           and_then (gsl_interp_alloc_binary64 interp numPoints) (\<lambda>interpolator0.
           and_then (gsl_interp_init_binary64 solve interpolator0 times' points numPoints)
             (\<lambda>interpolator.
           and_then gsl_interp_accel_alloc (\<lambda>acc.
           and_then
             (if d = 0 then gsl_interp_eval_binary64 interpolator times' points time acc
              else if d = 1 then gsl_interp_eval_deriv_binary64 interpolator times' points time acc
              else if d = 2 then gsl_interp_eval_deriv2_binary64 interpolator times' points time acc
              else raise (Invalid_argument ''Invalid derivitive option, must be 0, 1 or 2.''))
             (\<lambda>result.
           and_then (gsl_interp_free_binary64 interpolator) (\<lambda>_.
           and_then (gsl_interp_accel_free acc) (\<lambda>_.
           succeed result)))))))"

definition getPosition_binary64 ::
  "tridiag_solver_binary64 \<Rightarrow> real list list \<Rightarrow> real list \<Rightarrow> real \<Rightarrow> interpolation \<Rightarrow>
   double list run" where
  "getPosition_binary64 solve coords times' time interp =
     (if length coords \<noteq> 3
      then raise (Invalid_argument ''Invalid input positions, expected three vectors.'')
      else
        and_then (interpolate_binary64 solve (coords ! 0) times' time interp 0) (\<lambda>x.
        and_then (interpolate_binary64 solve (coords ! 1) times' time interp 0) (\<lambda>y.
        and_then (interpolate_binary64 solve (coords ! 2) times' time interp 0) (\<lambda>z.
        succeed [x, y, z]))))"

definition getVelocity_binary64 ::
  "tridiag_solver_binary64 \<Rightarrow> real list list \<Rightarrow> real list \<Rightarrow> real \<Rightarrow> interpolation \<Rightarrow>
   double list run" where
  "getVelocity_binary64 solve coords times' time interp =
     (if length coords \<noteq> 3
      then raise (Invalid_argument ''Invalid input positions, expected three vectors.'')
      else
        and_then (interpolate_binary64 solve (coords ! 0) times' time interp 1) (\<lambda>x.
        and_then (interpolate_binary64 solve (coords ! 1) times' time interp 1) (\<lambda>y.
        and_then (interpolate_binary64 solve (coords ! 2) times' time interp 1) (\<lambda>z.
        succeed [x, y, z]))))"

text \<open>The \<open>L D L\<^sup>T\<close> elimination of the closed examples, in binary64.\<close>

fun tridiag_alpha_binary64 :: "double list \<Rightarrow> double list \<Rightarrow> nat \<Rightarrow> double" where
  "tridiag_alpha_binary64 diag offdiag 0 = diag ! 0"
| "tridiag_alpha_binary64 diag offdiag (Suc i) =
     double_sub (diag ! Suc i)
       (double_mul (offdiag ! i) (double_div (offdiag ! i) (tridiag_alpha_binary64 diag offdiag i)))"

fun tridiag_z_binary64 :: "double list \<Rightarrow> double list \<Rightarrow> double list \<Rightarrow> nat \<Rightarrow> double" where
  "tridiag_z_binary64 diag offdiag b 0 = b ! 0"
| "tridiag_z_binary64 diag offdiag b (Suc i) =
     double_sub (b ! Suc i)
       (double_mul (double_div (offdiag ! i) (tridiag_alpha_binary64 diag offdiag i))
                   (tridiag_z_binary64 diag offdiag b i))"

fun tridiag_back_binary64 ::
  "double list \<Rightarrow> double list \<Rightarrow> double list \<Rightarrow> nat \<Rightarrow> nat \<Rightarrow> double" where
  "tridiag_back_binary64 diag offdiag b N 0 =
     double_div (tridiag_z_binary64 diag offdiag b (N - 1))
                (tridiag_alpha_binary64 diag offdiag (N - 1))"
| "tridiag_back_binary64 diag offdiag b N (Suc k) =
     double_sub
       (double_div (tridiag_z_binary64 diag offdiag b (N - 2 - k))
                   (tridiag_alpha_binary64 diag offdiag (N - 2 - k)))
       (double_mul (double_div (offdiag ! (N - 2 - k)) (tridiag_alpha_binary64 diag offdiag (N - 2 - k)))
                   (tridiag_back_binary64 diag offdiag b N k))"

definition solve_symm_tridiag_binary64 :: tridiag_solver_binary64 where
  "solve_symm_tridiag_binary64 diag offdiag b =
     (let N = length diag
      in map (\<lambda>i. tridiag_back_binary64 diag offdiag b N (N - 1 - i)) [0..<N])"

text \<open>
  The coefficients \<open>(b, c, d)\<close> of the cubic on the interval that starts at sample \<open>i\<close>, as
  the binary64 evaluator of the spline computes them, and whether all three are finite.
\<close>

definition spline_coefficients_binary64 ::
  "tridiag_solver_binary64 \<Rightarrow> real list \<Rightarrow> real list \<Rightarrow> nat \<Rightarrow> double \<times> double \<times> double" where
  "spline_coefficients_binary64 solve points times' i =
     coeff_calc_binary64 (cspline_init_binary64 solve times' points (length points))
       (double_sub (Finite (points ! (i + 1))) (Finite (points ! i)))
       (double_sub (Finite (times' ! (i + 1))) (Finite (times' ! i))) i"

definition finite_coefficients ::
  "tridiag_solver_binary64 \<Rightarrow> real list \<Rightarrow> real list \<Rightarrow> nat \<Rightarrow> bool" where
  "finite_coefficients solve points times' i =
     (case spline_coefficients_binary64 solve points times' i of
        (b, c, d) \<Rightarrow> finite_double b \<and> finite_double c \<and> finite_double d)"

text \<open>The value \<^const>\<open>interpolate_binary64\<close> returns when every check passes.\<close>

definition interp_value_binary64 ::
  "tridiag_solver_binary64 \<Rightarrow> real list \<Rightarrow> real list \<Rightarrow> real \<Rightarrow> interpolation \<Rightarrow> int \<Rightarrow> double" where
  "interp_value_binary64 solve points times' time interp d =
     (let n = length points; c = cspline_init_binary64 solve times' points n
      in case interp of
           LINEAR \<Rightarrow>
             (if d = 0 then linear_eval_binary64 times' points n time accel0
              else if d = 1 then linear_eval_deriv_binary64 times' points n time accel0
              else linear_eval_deriv2_binary64 times' points n time accel0)
         | SPLINE \<Rightarrow>
             (if d = 0 then cspline_eval_binary64 c times' points n time accel0
              else if d = 1 then cspline_eval_deriv_binary64 c times' points n time accel0
              else cspline_eval_deriv2_binary64 c times' points n time accel0))"

section \<open>Facts about the interpolation primitive\<close>

declare gsl_interp_bsearch.simps [simp del]
declare derivs_init_loop.simps [simp del]
declare derivs_horner_inner.simps [simp del]
declare derivs_horner_loop.simps [simp del]
declare derivs_factorial_loop.simps [simp del]
declare normalize_samples.simps [simp del]

subsection \<open>Sequencing\<close>

lemma and_then_raise [simp]: "and_then (raise e) f = raise e"
  by (simp add: and_then_def raise_def)

lemma and_then_succeed [simp]: "and_then (succeed x) f = f x"
  by (simp add: and_then_def succeed_def split: prod.splits)

lemma and_then_call [simp]: "and_then (call ev x) f = (ev # fst (f x), snd (f x))"
  by (simp add: and_then_def call_def split: prod.splits)

lemma and_then_pair_Inl [simp]: "and_then (es, Inl e) f = (es, Inl e)"
  by (simp add: and_then_def)

lemma and_then_pair_Inr [simp]: "and_then (es, Inr x) f = (es @ fst (f x), snd (f x))"
  by (simp add: and_then_def split: prod.splits)

subsection \<open>Strictly increasing abscissae and the bracket search\<close>

lemma strictly_increasing_nth:
  "strictly_increasing xs n \<longleftrightarrow> (\<forall>i. Suc i < n \<longrightarrow> xs ! i < xs ! Suc i)"
proof -
  have "strictly_increasing xs n \<longleftrightarrow> (\<forall>j. 1 \<le> j \<and> j < n \<longrightarrow> xs ! (j - 1) < xs ! j)"
    by (auto simp: strictly_increasing_def list_all_iff)
  also have "\<dots> \<longleftrightarrow> (\<forall>i. Suc i < n \<longrightarrow> xs ! i < xs ! Suc i)"
  proof (intro iffI allI impI)
    fix i
    assume h: "\<forall>j. 1 \<le> j \<and> j < n \<longrightarrow> xs ! (j - 1) < xs ! j" and "Suc i < n"
    then show "xs ! i < xs ! Suc i"
      using h[rule_format, of "Suc i"] by simp
  next
    fix j
    assume h: "\<forall>i. Suc i < n \<longrightarrow> xs ! i < xs ! Suc i" and "1 \<le> j \<and> j < n"
    then show "xs ! (j - 1) < xs ! j"
      using h[rule_format, of "j - 1"] by simp
  qed
  finally show ?thesis .
qed

lemma strictly_increasing_sorted:
  "strictly_increasing xs (length xs) \<longleftrightarrow> sorted_wrt (<) xs"
  by (simp add: strictly_increasing_nth sorted_wrt_iff_nth_Suc_transp)

lemma strictly_increasing_two: "strictly_increasing [t0, t1] (Suc (Suc 0)) \<longleftrightarrow> t0 < t1"
  using strictly_increasing_sorted[of "[t0, t1]"] by simp

lemma bsearch_adjacent: "ihi \<le> ilo + 1 \<Longrightarrow> gsl_interp_bsearch xa x ilo ihi = ilo"
  by (simp add: gsl_interp_bsearch.simps)

subsection \<open>Two samples, linear method\<close>

lemma interpolate_linear_two:
  assumes "t0 < t1" "t0 \<le> t" "t \<le> t1"
  shows "interpolate solve [v0, v1] [t0, t1] t LINEAR 0 =
    ([Interp_alloc, Interp_init, Accel_alloc, Interp_eval 0, Interp_free, Accel_free],
     Inr (v0 + (v1 - v0) * (t - t0) / (t1 - t0)))"
  using assms
  by (simp add: interpolate_def gsl_interp_alloc_def min_size_def gsl_interp_init_def
      strictly_increasing_two gsl_interp_accel_alloc_def gsl_interp_eval_def linear_eval_def
      gsl_interp_accel_find_def bsearch_adjacent gsl_interp_free_def
      gsl_interp_accel_free_def succeed_def Let_def)

lemma interpolate_linear_two_deriv:
  assumes "t0 < t1" "t0 \<le> t" "t \<le> t1"
  shows "interpolate solve [v0, v1] [t0, t1] t LINEAR 1 =
    ([Interp_alloc, Interp_init, Accel_alloc, Interp_eval 1, Interp_free, Accel_free],
     Inr ((v1 - v0) / (t1 - t0)))"
  using assms
  by (simp add: interpolate_def gsl_interp_alloc_def min_size_def gsl_interp_init_def
      strictly_increasing_two gsl_interp_accel_alloc_def gsl_interp_eval_deriv_def
      linear_eval_deriv_def gsl_interp_accel_find_def bsearch_adjacent gsl_interp_free_def
      gsl_interp_accel_free_def succeed_def Let_def)

subsection \<open>The paths through the interpolation primitive\<close>

lemma interpolate_cases:
  "interpolate solve points times' time interp d =
     (if length points < 2
      then ([], Inl (Invalid_argument ''At least two points must be input to interpolate over.''))
      else if length points \<noteq> length times'
      then ([], Inl (Invalid_argument
             ''Invalid gsl_interp_type data, must have the same number of points as times.''))
      else if time < hd times' \<or> time > last times'
      then ([], Inl (Invalid_argument ''Invalid gsl_interp_type time, outside of input times.''))
      else if length points < min_size interp
      then ([], Inl (Gsl_error ''insufficient number of points for interpolation type''))
      else if \<not> sorted_wrt (<) times'
      then ([Interp_alloc], Inl (Gsl_error ''x values must be strictly increasing''))
      else if d = 0 \<or> d = 1 \<or> d = 2
      then ([Interp_alloc, Interp_init, Accel_alloc, Interp_eval (nat d), Interp_free, Accel_free],
            Inr (interp_value solve points times' time interp d))
      else ([Interp_alloc, Interp_init, Accel_alloc],
            Inl (Invalid_argument ''Invalid derivitive option, must be 0, 1 or 2.'')))"
proof -
  have hl: "hd times' = times' ! 0 \<and> last times' = times' ! (length times' - 1)"
    if "2 \<le> length times'"
    using that by (cases times') (simp_all add: last_conv_nth)
  show ?thesis
    using hl
    by (cases interp)
      (auto simp add: interpolate_def gsl_interp_alloc_def gsl_interp_init_def
        strictly_increasing_sorted[symmetric] gsl_interp_accel_alloc_def gsl_interp_eval_def
        gsl_interp_eval_deriv_def gsl_interp_eval_deriv2_def gsl_interp_free_def
        gsl_interp_accel_free_def succeed_def raise_def call_def Let_def interp_value_def
        accel0_def)
qed

lemma bsearch_bracket:
  "ilo < ihi \<Longrightarrow>
     ilo \<le> gsl_interp_bsearch xa x ilo ihi \<and> gsl_interp_bsearch xa x ilo ihi < ihi
     \<and> (gsl_interp_bsearch xa x ilo ihi = ilo \<or> xa ! gsl_interp_bsearch xa x ilo ihi \<le> x)
     \<and> (gsl_interp_bsearch xa x ilo ihi + 1 = ihi \<or> x < xa ! (gsl_interp_bsearch xa x ilo ihi + 1))"
proof (induction xa x ilo ihi rule: gsl_interp_bsearch.induct)
  case (1 xa x ilo ihi)
  show ?case
  proof (cases "ihi > ilo + 1")
    case False
    with "1.prems" show ?thesis
      by (simp add: gsl_interp_bsearch.simps[of xa x ilo ihi])
  next
    case True
    let ?i = "(ihi + ilo) div 2"
    have mid: "ilo < ?i" "?i < ihi"
      using True by auto
    show ?thesis
    proof (cases "xa ! ?i > x")
      case gt: True
      have eq: "gsl_interp_bsearch xa x ilo ihi = gsl_interp_bsearch xa x ilo ?i"
        using True gt by (simp add: gsl_interp_bsearch.simps[of xa x ilo ihi])
      from "1.IH"(1)[OF True refl gt mid(1)] mid gt show ?thesis
        unfolding eq by auto
    next
      case le: False
      have eq: "gsl_interp_bsearch xa x ilo ihi = gsl_interp_bsearch xa x ?i ihi"
        using True le by (simp add: gsl_interp_bsearch.simps[of xa x ilo ihi])
      from "1.IH"(2)[OF True refl le mid(2)] mid le show ?thesis
        unfolding eq by auto
    qed
  qed
qed

lemma accel_find_bracket:
  assumes "2 \<le> n" "xa ! 0 \<le> x"
  shows "cache (gsl_interp_accel_find accel0 xa n x) < n - 1
     \<and> xa ! cache (gsl_interp_accel_find accel0 xa n x) \<le> x
     \<and> (cache (gsl_interp_accel_find accel0 xa n x) + 1 = n - 1
          \<or> x < xa ! (cache (gsl_interp_accel_find accel0 xa n x) + 1))"
proof (cases "xa ! 1 \<le> x")
  case True
  have lt: "0 < n - 1" using assms by simp
  show ?thesis
    using bsearch_bracket[OF lt, of xa x] assms True
    by (auto simp add: gsl_interp_accel_find_def accel0_def)
next
  case False
  then show ?thesis
    using assms by (auto simp add: gsl_interp_accel_find_def accel0_def)
qed


lemma knot_index:
  assumes inc: "sorted_wrt (<) xa" and n: "length xa = n" "2 \<le> n" and i: "i < n"
  defines "r \<equiv> cache (gsl_interp_accel_find accel0 xa n (xa ! i))"
  shows "r < n - 1 \<and> (r = i \<or> (r + 1 = i \<and> i = n - 1))"
proof -
  have mono: "xa ! a < xa ! b" if "a < b" "b < n" for a b
    using sorted_wrt_nth_less[OF inc that(1)] that n by simp
  have x0: "xa ! 0 \<le> xa ! i"
    using mono[of 0 i] i by (cases "i = 0") auto
  from accel_find_bracket[OF n(2) x0]
  have r: "r < n - 1" "xa ! r \<le> xa ! i" "r + 1 = n - 1 \<or> xa ! i < xa ! (r + 1)"
    unfolding r_def by auto
  have ri: "r \<le> i"
  proof (rule ccontr)
    assume "\<not> r \<le> i"
    then have "xa ! i < xa ! r" using mono[of i r] r(1) by simp
    with r(2) show False by simp
  qed
  show ?thesis
  proof (cases "r + 1 = n - 1")
    case True
    then show ?thesis using r(1) ri i by auto
  next
    case False
    with r(3) have lt: "xa ! i < xa ! (r + 1)" by simp
    have "i \<le> r"
    proof (rule ccontr)
      assume "\<not> i \<le> r"
      then have "r + 1 = i \<or> r + 1 < i" by auto
      then have "xa ! (r + 1) \<le> xa ! i" using mono[of "r + 1" i] i by auto
      with lt show False by simp
    qed
    then show ?thesis using r(1) ri by auto
  qed
qed

lemma cspline_segment_end:
  fixes dx :: real
  assumes "dx \<noteq> 0"
  shows "y_lo + dx * ((dy / dx - dx * (c1 + 2 * c0) / 3) + dx * (c0 + dx * ((c1 - c0) / (3 * dx))))
           = y_lo + dy"
  using assms by (simp add: field_simps)

lemma cspline_eval_knot:
  assumes inc: "sorted_wrt (<) xa" and n: "length xa = n" "2 \<le> n" and i: "i < n"
  shows "cspline_eval c xa ya n (xa ! i) accel0 = ya ! i"
proof -
  define r where "r = cache (gsl_interp_accel_find accel0 xa n (xa ! i))"
  define dx where "dx = xa ! (r + 1) - xa ! r"
  define dy where "dy = ya ! (r + 1) - ya ! r"
  define delx where "delx = xa ! i - xa ! r"
  have k: "r < n - 1 \<and> (r = i \<or> (r + 1 = i \<and> i = n - 1))"
    unfolding r_def by (rule knot_index[OF inc n i])
  have "r + 1 < length xa"
    using k n by linarith
  then have "xa ! r < xa ! (r + 1)"
    using sorted_wrt_nth_less[OF inc, of r "r + 1"] by simp
  then have pos: "0 < dx"
    by (simp add: dx_def)
  have val: "cspline_eval c xa ya n (xa ! i) accel0 =
      ya ! r + delx * ((dy / dx - dx * (c ! (r + 1) + 2 * c ! r) / 3)
                 + delx * (c ! r + delx * ((c ! (r + 1) - c ! r) / (3 * dx))))"
    using pos
    by (simp add: cspline_eval_def r_def[symmetric] coeff_calc_def Let_def dx_def dy_def
        delx_def)
  from k have "r = i \<or> r + 1 = i" by auto
  then show ?thesis
  proof
    assume "r = i"
    then show ?thesis
      unfolding val by (simp add: delx_def)
  next
    assume e: "r + 1 = i"
    then have "delx = dx"
      by (simp add: delx_def dx_def)
    then show ?thesis
      unfolding val using cspline_segment_end[of dx "ya ! r" dy "c ! (r + 1)" "c ! r"] pos e
      by (simp add: dy_def)
  qed
qed

section \<open>Facts about binary64 rounding\<close>

lemma find_Some_holds: "find P xs = Some x \<Longrightarrow> P x"
  by (induction xs) (auto split: if_splits)

lemma find_Some_member: "find P xs = Some x \<Longrightarrow> x \<in> set xs"
  by (induction xs) (auto split: if_splits)

lemma find_None_fails: "find P xs = None \<Longrightarrow> x \<in> set xs \<Longrightarrow> \<not> P x"
  by (induction xs) (auto split: if_splits)

lemma binade_eq:
  assumes "2 powi e \<le> \<bar>x\<bar>" "\<bar>x\<bar> < 2 powi (e + 1)" "- 1022 \<le> e" "e \<le> 1023"
  shows "binade x = e"
proof -
  let ?P = "\<lambda>e. 2 powi e \<le> \<bar>x\<bar> \<and> \<bar>x\<bar> < 2 powi (e + 1)"
  have "e \<in> {- 1022..1023}"
    using assms by simp
  then have "e \<in> set [- 1022..1023]"
    by (simp only: set_upto)
  then have "find ?P [- 1022..1023] \<noteq> None"
    using assms(1,2) find_None_fails[of ?P "[- 1022..1023]" e] by blast
  then obtain e' where f: "find ?P [- 1022..1023] = Some e'"
    by blast
  have p: "?P e'"
    using f by (rule find_Some_holds)
  have "e' = e"
  proof (rule ccontr)
    assume "e' \<noteq> e"
    then consider "e' + 1 \<le> e" | "e + 1 \<le> e'"
      by linarith
    then show False
    proof cases
      case 1
      then have "(2 :: real) powi (e' + 1) \<le> 2 powi e"
        by (intro power_int_increasing) simp_all
      with p assms show False by linarith
    next
      case 2
      then have "(2 :: real) powi (e + 1) \<le> 2 powi e'"
        by (intro power_int_increasing) simp_all
      with p assms show False by linarith
    qed
  qed
  then show ?thesis
    unfolding binade_def f by simp
qed

lemma binade_cases:
  "(2 powi binade x \<le> \<bar>x\<bar> \<and> - 1022 \<le> binade x) \<or> binade x = - 1022"
proof (cases "find (\<lambda>e. 2 powi e \<le> \<bar>x\<bar> \<and> \<bar>x\<bar> < 2 powi (e + 1)) [- 1022..1023]")
  case None
  then show ?thesis
    unfolding binade_def by simp
next
  case (Some e)
  have "e \<in> set [- 1022..1023]"
    using Some by (rule find_Some_member)
  then have "e \<in> {- 1022..1023}"
    by (simp only: set_upto)
  moreover have "2 powi e \<le> \<bar>x\<bar> \<and> \<bar>x\<bar> < 2 powi (e + 1)"
    using find_Some_holds[OF Some] .
  ultimately show ?thesis
    unfolding binade_def Some by simp
qed

lemma binade_lower: "- 1022 \<le> binade x"
  using binade_cases[of x] by auto

lemma binary64_round_at:
  assumes "2 powi e \<le> \<bar>x\<bar>" "\<bar>x\<bar> < 2 powi (e + 1)" "- 1022 \<le> e" "e \<le> 1022"
  shows "binary64_round x
     = Finite (of_int (round_half_even (x / 2 powi (e - 52))) * 2 powi (e - 52))"
proof -
  have b: "binade x = e"
    using assms by (intro binade_eq) simp_all
  have "(2 :: real) powi (e + 1) \<le> 2 powi 1023"
    using assms(4) by (intro power_int_increasing) simp_all
  moreover have "(2 :: real) powi 1023 < 2 powi 1024 - 2 powi 970"
    by simp
  ultimately have "\<bar>x\<bar> < 2 powi 1024 - 2 powi 970"
    using assms(2) by linarith
  then show ?thesis
    by (simp add: binary64_round_def b)
qed

lemma round_half_even_zero: "round_half_even 0 = 0"
  by (simp add: round_half_even_def)

lemma binary64_round_zero: "binary64_round 0 = Finite 0"
  by (simp add: binary64_round_def round_half_even_zero)

lemma round_half_even_ge_one:
  assumes "1 \<le> y"
  shows "1 \<le> round_half_even y"
proof -
  have "1 \<le> \<lfloor>y\<rfloor>"
    using assms by linarith
  then show ?thesis
    by (simp add: round_half_even_def Let_def)
qed

text \<open>A value of at least the smallest positive binary64 value rounds to a positive one.\<close>

lemma binary64_round_positive:
  assumes "2 powi (- 1074) \<le> x"
  shows "double_gt0 (binary64_round x)"
proof (cases "2 powi 1024 - 2 powi 970 \<le> \<bar>x\<bar>")
  case True
  have "(0 :: real) < 2 powi (- 1074)"
    by simp
  then have "0 < x"
    using assms by linarith
  then show ?thesis
    using True by (simp add: binary64_round_def double_gt0_def)
next
  case False
  have pos: "(0 :: real) < 2 powi (binade x - 52)"
    by simp
  have x: "0 < x"
    using assms by (smt (verit) zero_less_power_int)
  have "2 powi (binade x - 52) \<le> x"
  proof -
    from binade_cases[of x] show ?thesis
    proof
      assume a: "2 powi binade x \<le> \<bar>x\<bar> \<and> - 1022 \<le> binade x"
      have "(2 :: real) powi (binade x - 52) \<le> 2 powi binade x"
        by (intro power_int_increasing) simp_all
      with a x show ?thesis by linarith
    next
      assume "binade x = - 1022"
      then show ?thesis using assms by simp
    qed
  qed
  then have "1 \<le> x / 2 powi (binade x - 52)"
    using pos by (simp add: le_divide_eq)
  then have "1 \<le> round_half_even (x / 2 powi (binade x - 52))"
    by (rule round_half_even_ge_one)
  then have "0 < real_of_int (round_half_even (x / 2 powi (binade x - 52))) * 2 powi (binade x - 52)"
    using pos by (intro mult_pos_pos) simp_all
  then show ?thesis
    using False by (simp add: binary64_round_def double_gt0_def)
qed

text \<open>Every binary64 value is a multiple of the smallest positive one.\<close>

lemma is_binary64_grid:
  assumes "is_binary64 r"
  shows "\<exists>j :: int. r = of_int j * 2 powi (- 1074)"
proof -
  define e where "e = binade r"
  define m where "m = round_half_even (r / 2 powi (e - 52))"
  have lower: "- 1022 \<le> e"
    unfolding e_def by (rule binade_lower)
  have "binary64_round r = Finite r"
    using assms by (simp add: is_binary64_def)
  then have r: "r = of_int m * 2 powi (e - 52)"
    unfolding binary64_round_def m_def e_def by (auto split: if_splits)
  have "(2 :: real) powi ((e + 1022) + (- 1074)) = 2 powi (e + 1022) * 2 powi (- 1074)"
    by (rule power_int_add) simp
  moreover have "(e + 1022) + (- 1074) = e - 52"
    by simp
  ultimately have split: "(2 :: real) powi (e - 52) = 2 powi (e + 1022) * 2 powi (- 1074)"
    by (simp only:)
  have nat: "(2 :: real) powi (e + 1022) = of_int (2 ^ nat (e + 1022))"
    using lower by (simp add: power_int_def)
  have "r = of_int (m * 2 ^ nat (e + 1022)) * 2 powi (- 1074)"
    unfolding r split nat by (simp only: of_int_mult mult.assoc)
  then show ?thesis
    by blast
qed

text \<open>The difference of two distinct binary64 values does not round to zero.\<close>

lemma double_sub_positive:
  assumes "is_binary64 a" "is_binary64 b" "a < b"
  shows "double_gt0 (double_sub (Finite b) (Finite a))"
proof -
  obtain j k :: int where a: "a = of_int j * 2 powi (- 1074)" and b: "b = of_int k * 2 powi (- 1074)"
    using is_binary64_grid[OF assms(1)] is_binary64_grid[OF assms(2)] by blast
  have pos: "(0 :: real) < 2 powi (- 1074)"
    by simp
  have "real_of_int j < real_of_int k"
    using assms(3) pos unfolding a b by (simp only: mult_less_cancel_right_pos)
  then have "j + 1 \<le> k"
    by simp
  then have "real_of_int j + 1 \<le> real_of_int k"
    by (metis of_int_1 of_int_add of_int_le_iff)
  then have "(real_of_int j + 1) * 2 powi (- 1074) \<le> real_of_int k * 2 powi (- 1074)"
    using pos by (simp only: mult_le_cancel_right_pos)
  then have "2 powi (- 1074) \<le> b - a"
    unfolding a b by (simp add: algebra_simps)
  then show ?thesis
    by (simp add: binary64_round_positive)
qed

lemma double_sub_self: "double_sub (Finite x) (Finite x) = Finite 0"
  by (simp add: binary64_round_zero)

lemma double_mul_zero: "double_mul (Finite 0) (Finite x) = Finite 0"
  by (simp add: binary64_round_zero)

lemma double_add_zero: "is_binary64 x \<Longrightarrow> double_add (Finite x) (Finite 0) = Finite x"
  by (simp add: is_binary64_def)

lemma binary64_round_at_top:
  assumes "2 powi 1023 \<le> \<bar>x\<bar>" "\<bar>x\<bar> < 2 powi 1024 - 2 powi 970"
  shows "binary64_round x = Finite (of_int (round_half_even (x / 2 powi 971)) * 2 powi 971)"
proof -
  have "(2 :: real) powi 1024 - 2 powi 970 < 2 powi (1023 + 1)"
    by simp
  then have "\<bar>x\<bar> < 2 powi (1023 + 1)"
    using assms(2) by linarith
  then have "binade x = 1023"
    using assms(1) by (intro binade_eq) simp_all
  then show ?thesis
    using assms(2) by (simp add: binary64_round_def)
qed

subsection \<open>Rounding of the values of the closed examples\<close>

lemma binary64_round_m1_9007199254740992: "binary64_round (- (1 / 9007199254740992)) = Finite (- (1 / 9007199254740992))"
  using binary64_round_at[of "- 53" "- (1 / 9007199254740992)"]
  by (simp add: round_half_even_def power_int_minus)

lemma binary64_round_m1_4503599627370496: "binary64_round (- (1 / 4503599627370496)) = Finite (- (1 / 4503599627370496))"
  using binary64_round_at[of "- 52" "- (1 / 4503599627370496)"]
  by (simp add: round_half_even_def power_int_minus)

lemma binary64_round_6004799503160661_72057594037927936: "binary64_round (6004799503160661 / 72057594037927936) = Finite (6004799503160661 / 72057594037927936)"
  using binary64_round_at[of "- 4" "6004799503160661 / 72057594037927936"]
  by (simp add: round_half_even_def power_int_minus)

lemma binary64_round_1_12: "binary64_round (1 / 12) = Finite (6004799503160661 / 72057594037927936)"
  using binary64_round_at[of "- 4" "1 / 12"]
  by (simp add: round_half_even_def power_int_minus)

lemma binary64_round_1_10: "binary64_round (1 / 10) = Finite (3602879701896397 / 36028797018963968)"
  using binary64_round_at[of "- 4" "1 / 10"]
  by (simp add: round_half_even_def power_int_minus)

lemma binary64_round_3602879701896397_36028797018963968: "binary64_round (3602879701896397 / 36028797018963968) = Finite (3602879701896397 / 36028797018963968)"
  using binary64_round_at[of "- 4" "3602879701896397 / 36028797018963968"]
  by (simp add: round_half_even_def power_int_minus)

lemma binary64_round_m6004799503160661_36028797018963968: "binary64_round (- (6004799503160661 / 36028797018963968)) = Finite (- (6004799503160661 / 36028797018963968))"
  using binary64_round_at[of "- 3" "- (6004799503160661 / 36028797018963968)"]
  by (simp add: round_half_even_def power_int_minus)

lemma binary64_round_6004799503160661_36028797018963968: "binary64_round (6004799503160661 / 36028797018963968) = Finite (6004799503160661 / 36028797018963968)"
  using binary64_round_at[of "- 3" "6004799503160661 / 36028797018963968"]
  by (simp add: round_half_even_def power_int_minus)

lemma binary64_round_m1_6: "binary64_round (- (1 / 6)) = Finite (- (6004799503160661 / 36028797018963968))"
  using binary64_round_at[of "- 3" "- (1 / 6)"]
  by (simp add: round_half_even_def power_int_minus)

lemma binary64_round_1_4: "binary64_round (1 / 4) = Finite (1 / 4)"
  using binary64_round_at[of "- 2" "1 / 4"]
  by (simp add: round_half_even_def power_int_minus)

lemma binary64_round_5404319552844595_18014398509481984: "binary64_round (5404319552844595 / 18014398509481984) = Finite (5404319552844595 / 18014398509481984)"
  using binary64_round_at[of "- 2" "5404319552844595 / 18014398509481984"]
  by (simp add: round_half_even_def power_int_minus)

lemma binary64_round_3_10: "binary64_round (3 / 10) = Finite (5404319552844595 / 18014398509481984)"
  using binary64_round_at[of "- 2" "3 / 10"]
  by (simp add: round_half_even_def power_int_minus)

lemma binary64_round_10808639105689191_36028797018963968: "binary64_round (10808639105689191 / 36028797018963968) = Finite (1351079888211149 / 4503599627370496)"
  using binary64_round_at[of "- 2" "10808639105689191 / 36028797018963968"]
  by (simp add: round_half_even_def power_int_minus)

lemma binary64_round_1351079888211149_4503599627370496: "binary64_round (1351079888211149 / 4503599627370496) = Finite (1351079888211149 / 4503599627370496)"
  using binary64_round_at[of "- 2" "1351079888211149 / 4503599627370496"]
  by (simp add: round_half_even_def power_int_minus)

lemma binary64_round_m12009599006321323_36028797018963968: "binary64_round (- (12009599006321323 / 36028797018963968)) = Finite (- (3002399751580331 / 9007199254740992))"
  using binary64_round_at[of "- 2" "- (12009599006321323 / 36028797018963968)"]
  by (simp add: round_half_even_def power_int_minus)

lemma binary64_round_m3002399751580331_9007199254740992: "binary64_round (- (3002399751580331 / 9007199254740992)) = Finite (- (3002399751580331 / 9007199254740992))"
  using binary64_round_at[of "- 2" "- (3002399751580331 / 9007199254740992)"]
  by (simp add: round_half_even_def power_int_minus)

lemma binary64_round_m1_2: "binary64_round (- (1 / 2)) = Finite (- (1 / 2))"
  using binary64_round_at[of "- 1" "- (1 / 2)"]
  by (simp add: round_half_even_def power_int_minus)

lemma binary64_round_1_2: "binary64_round (1 / 2) = Finite (1 / 2)"
  using binary64_round_at[of "- 1" "1 / 2"]
  by (simp add: round_half_even_def power_int_minus)

lemma binary64_round_m6004799503160661_9007199254740992: "binary64_round (- (6004799503160661 / 9007199254740992)) = Finite (- (6004799503160661 / 9007199254740992))"
  using binary64_round_at[of "- 1" "- (6004799503160661 / 9007199254740992)"]
  by (simp add: round_half_even_def power_int_minus)

lemma binary64_round_6004799503160661_9007199254740992: "binary64_round (6004799503160661 / 9007199254740992) = Finite (6004799503160661 / 9007199254740992)"
  using binary64_round_at[of "- 1" "6004799503160661 / 9007199254740992"]
  by (simp add: round_half_even_def power_int_minus)

lemma binary64_round_m2_3: "binary64_round (- (2 / 3)) = Finite (- (6004799503160661 / 9007199254740992))"
  using binary64_round_at[of "- 1" "- (2 / 3)"]
  by (simp add: round_half_even_def power_int_minus)

lemma binary64_round_m3002399751580331_4503599627370496: "binary64_round (- (3002399751580331 / 4503599627370496)) = Finite (- (3002399751580331 / 4503599627370496))"
  using binary64_round_at[of "- 1" "- (3002399751580331 / 4503599627370496)"]
  by (simp add: round_half_even_def power_int_minus)

lemma binary64_round_4503599627370495_4503599627370496: "binary64_round (4503599627370495 / 4503599627370496) = Finite (4503599627370495 / 4503599627370496)"
  using binary64_round_at[of "- 1" "4503599627370495 / 4503599627370496"]
  by (simp add: round_half_even_def power_int_minus)

lemma binary64_round_m1: "binary64_round (- 1) = Finite (- 1)"
  using binary64_round_at[of "0" "- 1"]
  by (simp add: round_half_even_def power_int_minus)

lemma binary64_round_1: "binary64_round (1) = Finite (1)"
  using binary64_round_at[of "0" "1"]
  by (simp add: round_half_even_def power_int_minus)

lemma binary64_round_42033596522124629_36028797018963968: "binary64_round (42033596522124629 / 36028797018963968) = Finite (5254199565265579 / 4503599627370496)"
  using binary64_round_at[of "0" "42033596522124629 / 36028797018963968"]
  by (simp add: round_half_even_def power_int_minus)

lemma binary64_round_5254199565265579_4503599627370496: "binary64_round (5254199565265579 / 4503599627370496) = Finite (5254199565265579 / 4503599627370496)"
  using binary64_round_at[of "0" "5254199565265579 / 4503599627370496"]
  by (simp add: round_half_even_def power_int_minus)

lemma binary64_round_m2: "binary64_round (- 2) = Finite (- 2)"
  using binary64_round_at[of "1" "- 2"]
  by (simp add: round_half_even_def power_int_minus)

lemma binary64_round_2: "binary64_round (2) = Finite (2)"
  using binary64_round_at[of "1" "2"]
  by (simp add: round_half_even_def power_int_minus)

lemma binary64_round_5_2: "binary64_round (5 / 2) = Finite (5 / 2)"
  using binary64_round_at[of "1" "5 / 2"]
  by (simp add: round_half_even_def power_int_minus)

lemma binary64_round_m3: "binary64_round (- 3) = Finite (- 3)"
  using binary64_round_at[of "1" "- 3"]
  by (simp add: round_half_even_def power_int_minus)

lemma binary64_round_3: "binary64_round (3) = Finite (3)"
  using binary64_round_at[of "1" "3"]
  by (simp add: round_half_even_def power_int_minus)

lemma binary64_round_4: "binary64_round (4) = Finite (4)"
  using binary64_round_at[of "2" "4"]
  by (simp add: round_half_even_def power_int_minus)

lemma binary64_round_5: "binary64_round (5) = Finite (5)"
  using binary64_round_at[of "2" "5"]
  by (simp add: round_half_even_def power_int_minus)

lemma binary64_round_6: "binary64_round (6) = Finite (6)"
  using binary64_round_at[of "2" "6"]
  by (simp add: round_half_even_def power_int_minus)

lemma binary64_round_10: "binary64_round (10) = Finite (10)"
  using binary64_round_at[of "3" "10"]
  by (simp add: round_half_even_def power_int_minus)

lemmas binary64_round_values =
  binary64_round_zero
  binary64_round_m1_9007199254740992
  binary64_round_m1_4503599627370496
  binary64_round_6004799503160661_72057594037927936
  binary64_round_1_12
  binary64_round_1_10
  binary64_round_3602879701896397_36028797018963968
  binary64_round_m6004799503160661_36028797018963968
  binary64_round_6004799503160661_36028797018963968
  binary64_round_m1_6
  binary64_round_1_4
  binary64_round_5404319552844595_18014398509481984
  binary64_round_3_10
  binary64_round_10808639105689191_36028797018963968
  binary64_round_1351079888211149_4503599627370496
  binary64_round_m12009599006321323_36028797018963968
  binary64_round_m3002399751580331_9007199254740992
  binary64_round_m1_2
  binary64_round_1_2
  binary64_round_m6004799503160661_9007199254740992
  binary64_round_6004799503160661_9007199254740992
  binary64_round_m2_3
  binary64_round_m3002399751580331_4503599627370496
  binary64_round_4503599627370495_4503599627370496
  binary64_round_m1
  binary64_round_1
  binary64_round_42033596522124629_36028797018963968
  binary64_round_5254199565265579_4503599627370496
  binary64_round_m2
  binary64_round_2
  binary64_round_5_2
  binary64_round_m3
  binary64_round_3
  binary64_round_4
  binary64_round_5
  binary64_round_6
  binary64_round_10

section \<open>Facts about the interpolation primitive in binary64\<close>

text \<open>The paths through \<^const>\<open>interpolate_binary64\<close> are those of \<^const>\<open>interpolate\<close>.\<close>

lemma interpolate_binary64_cases:
  "interpolate_binary64 solve points times' time interp d =
     (if length points < 2
      then ([], Inl (Invalid_argument ''At least two points must be input to interpolate over.''))
      else if length points \<noteq> length times'
      then ([], Inl (Invalid_argument
             ''Invalid gsl_interp_type data, must have the same number of points as times.''))
      else if time < hd times' \<or> time > last times'
      then ([], Inl (Invalid_argument ''Invalid gsl_interp_type time, outside of input times.''))
      else if length points < min_size interp
      then ([], Inl (Gsl_error ''insufficient number of points for interpolation type''))
      else if \<not> sorted_wrt (<) times'
      then ([Interp_alloc], Inl (Gsl_error ''x values must be strictly increasing''))
      else if d = 0 \<or> d = 1 \<or> d = 2
      then ([Interp_alloc, Interp_init, Accel_alloc, Interp_eval (nat d), Interp_free, Accel_free],
            Inr (interp_value_binary64 solve points times' time interp d))
      else ([Interp_alloc, Interp_init, Accel_alloc],
            Inl (Invalid_argument ''Invalid derivitive option, must be 0, 1 or 2.'')))"
proof -
  have hl: "hd times' = times' ! 0 \<and> last times' = times' ! (length times' - 1)"
    if "2 \<le> length times'"
    using that by (cases times') (simp_all add: last_conv_nth)
  show ?thesis
    using hl
    by (cases interp)
      (auto simp add: interpolate_binary64_def gsl_interp_alloc_binary64_def
        gsl_interp_init_binary64_def strictly_increasing_sorted[symmetric]
        gsl_interp_accel_alloc_def gsl_interp_eval_binary64_def
        gsl_interp_eval_deriv_binary64_def gsl_interp_eval_deriv2_binary64_def
        gsl_interp_free_binary64_def gsl_interp_accel_free_def succeed_def raise_def call_def
        Let_def interp_value_binary64_def accel0_def)
qed

lemma accel_find_two:
  assumes "t0 \<le> t" "t \<le> t1"
  shows "cache (gsl_interp_accel_find accel0 [t0, t1] (Suc (Suc 0)) t) = 0"
  using assms
  by (simp add: gsl_interp_accel_find_def accel0_def bsearch_adjacent)

lemma interpolate_binary64_linear_two:
  assumes "is_binary64 t0" "is_binary64 t1" "t0 < t1" "t0 \<le> t" "t \<le> t1"
  shows "outcome (interpolate_binary64 solve [v0, v1] [t0, t1] t LINEAR 0) =
    Inr (double_add (Finite v0)
           (double_mul
              (double_div (double_sub (Finite t) (Finite t0)) (double_sub (Finite t1) (Finite t0)))
              (double_sub (Finite v1) (Finite v0))))"
proof -
  have dx: "double_gt0 (double_sub (Finite t1) (Finite t0))"
    using assms(1,2,3) by (rule double_sub_positive)
  show ?thesis
    using assms(3,4,5) dx
    by (simp add: interpolate_binary64_cases min_size_def interp_value_binary64_def
        linear_eval_binary64_def accel_find_two Let_def del: double_sub.simps)
qed

lemma interpolate_binary64_linear_two_deriv:
  assumes "is_binary64 t0" "is_binary64 t1" "t0 < t1" "t0 \<le> t" "t \<le> t1"
  shows "outcome (interpolate_binary64 solve [v0, v1] [t0, t1] t LINEAR 1) =
    Inr (double_div (double_sub (Finite v1) (Finite v0)) (double_sub (Finite t1) (Finite t0)))"
proof -
  have dx: "double_gt0 (double_sub (Finite t1) (Finite t0))"
    using assms(1,2,3) by (rule double_sub_positive)
  show ?thesis
    using assms(3,4,5) dx
    by (simp add: interpolate_binary64_cases min_size_def interp_value_binary64_def
        linear_eval_deriv_binary64_def accel_find_two Let_def del: double_sub.simps)
qed

lemma binary64_round_plus_overflow:
  "2 powi 1024 - 2 powi 970 \<le> x \<Longrightarrow> binary64_round x = PlusInfinity"
  by (simp add: binary64_round_def)

lemma binary64_round_minus_overflow:
  "x \<le> - (2 powi 1024 - 2 powi 970) \<Longrightarrow> binary64_round x = MinusInfinity"
  by (simp add: binary64_round_def)

subsection \<open>The spline at a sample that is not the last\<close>

lemma cspline_eval_binary64_knot:
  assumes inc: "sorted_wrt (<) xa" and n: "length xa = n" "2 \<le> n" and i: "i + 1 < n"
    and bx: "is_binary64 (xa ! i)" "is_binary64 (xa ! (i + 1))" and vy: "is_binary64 (ya ! i)"
    and co: "coeff_calc_binary64 c (double_sub (Finite (ya ! (i + 1))) (Finite (ya ! i)))
               (double_sub (Finite (xa ! (i + 1))) (Finite (xa ! i))) i = (b, cc, d)"
    and fin: "finite_double b" "finite_double cc" "finite_double d"
  shows "cspline_eval_binary64 c xa ya n (xa ! i) accel0 = Finite (ya ! i)"
proof -
  define r where "r = cache (gsl_interp_accel_find accel0 xa n (xa ! i))"
  have "r < n - 1 \<and> (r = i \<or> (r + 1 = i \<and> i = n - 1))"
    unfolding r_def using i by (intro knot_index[OF inc n]) simp
  then have r: "r = i"
    using i by auto
  have "xa ! i < xa ! (i + 1)"
    using sorted_wrt_nth_less[OF inc, of i "i + 1"] i n by simp
  then have dx: "double_gt0 (double_sub (Finite (xa ! (i + 1))) (Finite (xa ! i)))"
    using bx by (intro double_sub_positive)
  obtain b' c' d' where v: "b = Finite b'" "cc = Finite c'" "d = Finite d'"
    and bin: "is_binary64 b'" "is_binary64 c'" "is_binary64 d'"
    using fin by (auto simp add: finite_double_def split: double.splits)
  have "cspline_eval_binary64 c xa ya n (xa ! i) accel0 =
      double_add (Finite (ya ! i))
        (double_mul (double_sub (Finite (xa ! i)) (Finite (xa ! i)))
           (double_add b
              (double_mul (double_sub (Finite (xa ! i)) (Finite (xa ! i)))
                 (double_add cc (double_mul (double_sub (Finite (xa ! i)) (Finite (xa ! i))) d)))))"
    using dx co
    by (simp add: cspline_eval_binary64_def r_def[symmetric] r Let_def del: double_sub.simps)
  also have "\<dots> = Finite (ya ! i)"
    unfolding v double_sub_self double_mul_zero double_add_zero[OF bin(1)]
      double_add_zero[OF bin(2)] double_add_zero[OF vy] ..
  finally show ?thesis .
qed

lemma knot_in_range:
  fixes times' :: "real list"
  assumes "sorted_wrt (<) times'" "i < length times'"
  shows "hd times' \<le> times' ! i \<and> times' ! i \<le> last times'"
proof -
  have mono: "times' ! a < times' ! b" if "a < b" "b < length times'" for a b
    using sorted_wrt_nth_less[OF assms(1) that] .
  have ne: "times' \<noteq> []"
    using assms(2) by auto
  have hl: "hd times' = times' ! 0" "last times' = times' ! (length times' - 1)"
    using ne by (simp_all add: hd_conv_nth last_conv_nth)
  have lo: "hd times' \<le> times' ! i"
    unfolding hl using mono[of 0 i] assms by (cases "i = 0") auto
  have hi: "times' ! i \<le> last times'"
  proof (cases "i = length times' - 1")
    case True
    then show ?thesis by (simp add: hl)
  next
    case False
    then have "i < length times' - 1" using assms by linarith
    from mono[OF this] ne show ?thesis unfolding hl by simp
  qed
  from lo hi show ?thesis ..
qed

lemma interpolate_spline_knot:
  assumes "3 \<le> length points" "length points = length times'" "sorted_wrt (<) times'"
    "i < length points"
  shows "outcome (interpolate solve points times' (times' ! i) SPLINE 0) = Inr (points ! i)"
proof -
  have v: "cspline_eval (cspline_init solve times' points (length points)) times' points
            (length points) (times' ! i) accel0 = points ! i"
    using cspline_eval_knot[OF assms(3), of "length points" i] assms by simp
  show ?thesis
    using assms knot_in_range[OF assms(3), of i] v
    by (simp add: interpolate_cases min_size_def interp_value_def)
qed

lemma interpolate_binary64_spline_knot:
  assumes "3 \<le> length points" "length points = length times'" "sorted_wrt (<) times'"
    "i + 1 < length points" "list_all is_binary64 times'" "is_binary64 (points ! i)"
    "finite_coefficients solve points times' i"
  shows "outcome (interpolate_binary64 solve points times' (times' ! i) SPLINE 0)
           = Inr (Finite (points ! i))"
proof -
  obtain b cc d where co: "spline_coefficients_binary64 solve points times' i = (b, cc, d)"
    by (cases "spline_coefficients_binary64 solve points times' i") auto
  have fin: "finite_double b" "finite_double cc" "finite_double d"
    using assms(7) by (simp_all add: finite_coefficients_def co)
  have bx: "is_binary64 (times' ! i)" "is_binary64 (times' ! (i + 1))"
    using assms(2,4,5) by (simp_all add: list_all_length)
  have v: "cspline_eval_binary64 (cspline_init_binary64 solve times' points (length points))
             times' points (length points) (times' ! i) accel0 = Finite (points ! i)"
    using assms(1,2,4) co
    by (intro cspline_eval_binary64_knot[OF assms(3) _ _ _ bx assms(6) _ fin])
      (simp_all add: spline_coefficients_binary64_def)
  show ?thesis
    using assms(1,2,3,4) knot_in_range[OF assms(3), of i] v
    by (simp add: interpolate_binary64_cases min_size_def interp_value_binary64_def)
qed

subsection \<open>A spline through three samples\<close>

lemma spline_example_coefficients:
  "spline_coefficients_binary64 solve_symm_tridiag_binary64 [0, 1, 1] [0, 1, 3] 1
     = (Finite (6004799503160661 / 9007199254740992), Finite (- (1 / 2)),
        Finite (6004799503160661 / 72057594037927936))"
  by (simp add: spline_coefficients_binary64_def cspline_init_binary64_def
      coeff_calc_binary64_def Let_def double_ne0_def binary64_round_values)

lemma spline_example_finite:
  "finite_coefficients solve_symm_tridiag_binary64 [0, 1, 1] [0, 1, 3] 1"
  unfolding finite_coefficients_def spline_example_coefficients
  by (simp add: finite_double_def is_binary64_def binary64_round_values)

lemma spline_example_last_index:
  "cache (gsl_interp_accel_find accel0 [0, 1, 3] (length [0, 1, 3 :: real]) 3) = 1"
  using knot_index[of "[0, 1, 3]" "length [0, 1, 3 :: real]" 2] by auto

lemma spline_example_first_index:
  "cache (gsl_interp_accel_find accel0 [0, 1, 2] (length [0, 1, 2 :: real]) 0) = 0"
  using knot_index[of "[0, 1, 2]" "length [0, 1, 2 :: real]" 0] by auto

section \<open>Linear interpolation between two samples\<close>

text \<open>
  C1, as amended. For a channel of two samples \<open>(t0, v0)\<close>, \<open>(t1, v1)\<close> with \<open>t0 < t1\<close> and a
  query time \<open>t0 \<le> t \<le> t1\<close>, \<^const>\<open>interpolate\<close> with the linear method and derivative order
  0 returns \<open>v0 + ((t - t0) / (t1 - t0)) (v1 - v0)\<close>, every operation rounded to
  binary64. In real arithmetic this is exactly the affine interpolation
  \<open>v0 + (v1 - v0) (t - t0) / (t1 - t0)\<close>. With channels \<open>x = [0, 1]\<close>, \<open>y = z = [0, 0]\<close> and
  timestamps \<open>[0, 10]\<close>, the linear position at time 5 is \<open>[0.5, 0, 0]\<close> and the linear
  velocity at every time strictly between 0 and 10 is \<open>[0.1, 0, 0]\<close>, in real arithmetic
  and in binary64, where \<open>0.1\<close> is the binary64 value nearest to one tenth.
\<close>

theorem linear_two_samples_affine:
  "(t0 < t1 \<and> t0 \<le> t \<and> t \<le> t1 \<longrightarrow>
      outcome (interpolate solve [v0, v1] [t0, t1] t LINEAR 0) =
        Inr (v0 + (v1 - v0) * (t - t0) / (t1 - t0)))
   \<and> outcome (getPosition solve [[0, 1], [0, 0], [0, 0]] [0, 10] 5 LINEAR) = Inr [1 / 2, 0, 0]
   \<and> (0 < s \<and> s < 10 \<longrightarrow>
        outcome (getVelocity solve [[0, 1], [0, 0], [0, 0]] [0, 10] s LINEAR)
          = Inr [1 / 10, 0, 0])
   \<and> (is_binary64 t0 \<and> is_binary64 t1 \<and> t0 < t1 \<and> t0 \<le> t \<and> t \<le> t1 \<longrightarrow>
        outcome (interpolate_binary64 solve64 [v0, v1] [t0, t1] t LINEAR 0) =
          Inr (double_add (Finite v0)
                 (double_mul
                    (double_div (double_sub (Finite t) (Finite t0))
                                (double_sub (Finite t1) (Finite t0)))
                    (double_sub (Finite v1) (Finite v0)))))
   \<and> outcome (getPosition_binary64 solve64 [[0, 1], [0, 0], [0, 0]] [0, 10] 5 LINEAR)
       = Inr [Finite (1 / 2), Finite 0, Finite 0]
   \<and> (0 < s \<and> s < 10 \<longrightarrow>
        outcome (getVelocity_binary64 solve64 [[0, 1], [0, 0], [0, 0]] [0, 10] s LINEAR)
          = Inr [binary64_round (1 / 10), Finite 0, Finite 0])"
proof (intro conjI impI)
  assume "t0 < t1 \<and> t0 \<le> t \<and> t \<le> t1"
  then show "outcome (interpolate solve [v0, v1] [t0, t1] t LINEAR 0) =
        Inr (v0 + (v1 - v0) * (t - t0) / (t1 - t0))"
    by (simp add: interpolate_linear_two)
next
  show "outcome (getPosition solve [[0, 1], [0, 0], [0, 0]] [0, 10] 5 LINEAR)
          = Inr [1 / 2, 0, 0]"
    by (simp add: getPosition_def interpolate_linear_two succeed_def)
next
  assume "0 < s \<and> s < 10"
  then show "outcome (getVelocity solve [[0, 1], [0, 0], [0, 0]] [0, 10] s LINEAR)
          = Inr [1 / 10, 0, 0]"
    by (simp add: getVelocity_def interpolate_linear_two_deriv succeed_def)
next
  assume "is_binary64 t0 \<and> is_binary64 t1 \<and> t0 < t1 \<and> t0 \<le> t \<and> t \<le> t1"
  then show "outcome (interpolate_binary64 solve64 [v0, v1] [t0, t1] t LINEAR 0) =
          Inr (double_add (Finite v0)
                 (double_mul
                    (double_div (double_sub (Finite t) (Finite t0))
                                (double_sub (Finite t1) (Finite t0)))
                    (double_sub (Finite v1) (Finite v0))))"
    by (intro interpolate_binary64_linear_two) simp_all
next
  show "outcome (getPosition_binary64 solve64 [[0, 1], [0, 0], [0, 0]] [0, 10] 5 LINEAR)
       = Inr [Finite (1 / 2), Finite 0, Finite 0]"
    by (simp add: getPosition_binary64_def interpolate_binary64_cases min_size_def
        interp_value_binary64_def linear_eval_binary64_def accel_find_two Let_def
        double_gt0_def binary64_round_values succeed_def)
next
  assume "0 < s \<and> s < 10"
  then show "outcome (getVelocity_binary64 solve64 [[0, 1], [0, 0], [0, 0]] [0, 10] s LINEAR)
          = Inr [binary64_round (1 / 10), Finite 0, Finite 0]"
    by (simp add: getVelocity_binary64_def interpolate_binary64_cases min_size_def
        interp_value_binary64_def linear_eval_deriv_binary64_def accel_find_two Let_def
        double_gt0_def binary64_round_values succeed_def)
qed

theorem linear_two_samples_affine_witness:
  "outcome (interpolate solve_symm_tridiag [2, 4] [1, 5] 2 LINEAR 0) = Inr (5 / 2)
   \<and> outcome (getPosition solve_symm_tridiag [[0, 1], [0, 0], [0, 0]] [0, 10] 5 LINEAR)
       = Inr [1 / 2, 0, 0]
   \<and> outcome (getVelocity solve_symm_tridiag [[0, 1], [0, 0], [0, 0]] [0, 10] 3 LINEAR)
       = Inr [1 / 10, 0, 0]
   \<and> outcome (interpolate_binary64 solve_symm_tridiag_binary64 [2, 4] [1, 5] 2 LINEAR 0)
       = Inr (Finite (5 / 2))
   \<and> outcome (getPosition_binary64 solve_symm_tridiag_binary64
                [[0, 1], [0, 0], [0, 0]] [0, 10] 5 LINEAR)
       = Inr [Finite (1 / 2), Finite 0, Finite 0]
   \<and> outcome (getVelocity_binary64 solve_symm_tridiag_binary64
                [[0, 1], [0, 0], [0, 0]] [0, 10] 3 LINEAR)
       = Inr [Finite (3602879701896397 / 36028797018963968), Finite 0, Finite 0]"
  using linear_two_samples_affine
    [of 1 5 2 solve_symm_tridiag 2 4 3 solve_symm_tridiag_binary64]
  by (simp add: is_binary64_def binary64_round_values)

text \<open>
  In binary64 the value returned is not always the affine interpolation, nor the
  binary64 value nearest to it: for the samples \<open>(0, 0)\<close>, \<open>(10, 3)\<close> and the query time 1
  the code computes \<open>0 + (1 / 10) 3\<close> with \<open>1 / 10\<close> rounded up, and returns
  \<open>0.30000000000000004\<close>, the successor of the binary64 value nearest to \<open>3 / 10\<close>. All four
  inputs are binary64 values. And with \<open>t0 = t1 = t\<close> no value is returned: GSL rejects
  the two timestamps.
\<close>

theorem linear_binary64_rounding_counterexample:
  "outcome (interpolate_binary64 solve_symm_tridiag_binary64 [0, 3] [0, 10] 1 LINEAR 0)
     = Inr (Finite (1351079888211149 / 4503599627370496))
   \<and> binary64_round (0 + (3 - 0) * (1 - 0) / (10 - 0))
       = Finite (5404319552844595 / 18014398509481984)
   \<and> outcome (interpolate_binary64 solve_symm_tridiag_binary64 [0, 3] [0, 10] 1 LINEAR 0)
       \<noteq> Inr (binary64_round (0 + (3 - 0) * (1 - 0) / (10 - 0)))
   \<and> is_binary64 0 \<and> is_binary64 3 \<and> is_binary64 10 \<and> is_binary64 1
   \<and> outcome (interpolate solve_symm_tridiag [1, 2] [5, 5] 5 LINEAR 0)
       = Inl (Gsl_error ''x values must be strictly increasing'')"
  by (simp add: interpolate_binary64_cases interpolate_cases min_size_def
      interp_value_binary64_def linear_eval_binary64_def accel_find_two Let_def
      double_gt0_def is_binary64_def binary64_round_values)

section \<open>Shape checks\<close>

text \<open>
  C8. A tabulated operation given a number of channels other than its required number
  (3 for \<^const>\<open>getPosition\<close> and \<^const>\<open>getVelocity\<close>, 4 for \<^const>\<open>getRotation\<close> and
  \<^const>\<open>getAngularVelocity\<close>) throws \<^verbatim>\<open>invalid_argument\<close> with the message naming the
  expected shape, and a polynomial operation does so when given other than 3 coefficient
  sequences; no call into GSL or Eigen has been made at that point. In particular
  \<^const>\<open>getPosition\<close> with two channels fails so.
\<close>

theorem shape_mismatch_rejected_first:
  "(length coords \<noteq> 3 \<longrightarrow>
      getPosition solve coords times' time interp =
        ([], Inl (Invalid_argument ''Invalid input positions, expected three vectors.''))
    \<and> getVelocity solve coords times' time interp =
        ([], Inl (Invalid_argument ''Invalid input positions, expected three vectors.''))
    \<and> getPosition_poly coords time =
        ([], Inl (Invalid_argument ''Invalid input coeffs, expected three vectors.''))
    \<and> getVelocity_poly coords time =
        ([], Inl (Invalid_argument ''Invalid input coeffs, expected three vectors.'')))
   \<and> (length rotations \<noteq> 4 \<longrightarrow>
      getRotation solve rotations times' time interp =
        ([], Inl (Invalid_argument ''Invalid input rotations, expected four vectors.''))
    \<and> getAngularVelocity solve rotations times' time interp =
        ([], Inl (Invalid_argument ''Invalid input rotations, expected four vectors.'')))
   \<and> getPosition solve [xs, ys] times' time interp =
        ([], Inl (Invalid_argument ''Invalid input positions, expected three vectors.''))"
  by (simp add: getPosition_def getVelocity_def getPosition_poly_def getVelocity_poly_def
      getRotation_def getAngularVelocity_def raise_def)

theorem shape_mismatch_rejected_first_witness:
  "getPosition solve_symm_tridiag [[0, 1], [0, 0]] [0, 10] 5 LINEAR =
     ([], Inl (Invalid_argument ''Invalid input positions, expected three vectors.''))
   \<and> getVelocity solve_symm_tridiag [[0, 1], [0, 0]] [0, 10] 5 LINEAR =
     ([], Inl (Invalid_argument ''Invalid input positions, expected three vectors.''))
   \<and> getPosition_poly [[1, 2], [0]] 3 =
     ([], Inl (Invalid_argument ''Invalid input coeffs, expected three vectors.''))
   \<and> getVelocity_poly [[1, 2], [0]] 3 =
     ([], Inl (Invalid_argument ''Invalid input coeffs, expected three vectors.''))
   \<and> getRotation solve_symm_tridiag [[1, 1], [0, 0], [0, 0]] [0, 10] 5 LINEAR =
     ([], Inl (Invalid_argument ''Invalid input rotations, expected four vectors.''))
   \<and> getAngularVelocity solve_symm_tridiag [[1, 1], [0, 0], [0, 0]] [0, 10] 5 LINEAR =
     ([], Inl (Invalid_argument ''Invalid input rotations, expected four vectors.''))"
proof -
  have a: "length [[0, 1], [0, 0 :: real]] \<noteq> 3"
    by simp
  have b: "length [[1, 1], [0, 0], [0, 0 :: real]] \<noteq> 4"
    by simp
  have c: "length [[1, 2], [0 :: real]] \<noteq> 3"
    by simp
  show ?thesis
    using
      shape_mismatch_rejected_first
        [of "[[0, 1], [0, 0]]" solve_symm_tridiag "[0, 10]" 5 LINEAR
            "[[1, 1], [0, 0], [0, 0]]" "[0, 1]" "[0, 0]"]
      shape_mismatch_rejected_first
        [of "[[1, 2], [0]]" solve_symm_tridiag "[0, 10]" 3 LINEAR
            "[[1, 1], [0, 0], [0, 0]]" "[0, 1]" "[0, 0]"]
      a b c
    by simp
qed

lemma sorted_hd_le_last:
  fixes xs :: "real list"
  assumes "sorted_wrt (<) xs" "xs \<noteq> []"
  shows "hd xs \<le> last xs"
proof (cases "length xs = 1")
  case True
  then show ?thesis
    by (cases xs) simp_all
next
  case False
  with assms(2) have "0 < length xs - 1" "length xs - 1 < length xs"
    by (cases xs; simp)+
  from sorted_wrt_nth_less[OF assms(1) this] show ?thesis
    using assms(2) by (simp add: hd_conv_nth last_conv_nth)
qed

section \<open>Failure of the interpolation primitive\<close>

text \<open>
  C2, as amended. Let the timestamps be strictly increasing and let the cubic-spline
  method not be given exactly two samples; GSL rejects timestamps that are not strictly
  increasing and a spline of two samples, and its error handler then ends the call. Then \<^const>\<open>interpolate\<close> throws \<^verbatim>\<open>invalid_argument\<close> if and only if the channel has
  fewer than 2 samples, the channel length differs from the timestamp length, the query
  time lies outside the closed interval from the first to the last timestamp, or the
  derivative order is not 0, 1 or 2; it returns a value if and only if none of these
  holds. A query time equal to the first or to the last timestamp is accepted.
\<close>

theorem interpolate_fails_iff_precondition_violated:
  assumes "sorted_wrt (<) times'" and "interp = SPLINE \<Longrightarrow> length points \<noteq> 2"
  shows
    "((\<exists>msg. outcome (interpolate solve points times' time interp d) = Inl (Invalid_argument msg))
        \<longleftrightarrow> precondition_violated points times' time d)
     \<and> ((\<exists>v. outcome (interpolate solve points times' time interp d) = Inr v)
        \<longleftrightarrow> \<not> precondition_violated points times' time d)
     \<and> (2 \<le> length points \<and> length points = length times' \<and> (d = 0 \<or> d = 1 \<or> d = 2) \<longrightarrow>
          (\<exists>v. outcome (interpolate solve points times' (hd times') interp d) = Inr v)
        \<and> (\<exists>v. outcome (interpolate solve points times' (last times') interp d) = Inr v))"
proof -
  have ms: "length points < 2 \<or> min_size interp \<le> length points"
    using assms(2) by (cases interp) (auto simp add: min_size_def)
  have ends: "hd times' \<le> last times'" if "2 \<le> length points" "length points = length times'"
    using sorted_hd_le_last[OF assms(1)] that by (cases "times' = []") auto
  have a: "(\<exists>msg. outcome (interpolate solve points times' time interp d)
                = Inl (Invalid_argument msg))
        \<longleftrightarrow> precondition_violated points times' time d"
    using assms(1) ms
    by (auto simp add: interpolate_cases precondition_violated_def)
  have b: "(\<exists>v. outcome (interpolate solve points times' time interp d) = Inr v)
        \<longleftrightarrow> \<not> precondition_violated points times' time d"
    using assms(1) ms
    by (auto simp add: interpolate_cases precondition_violated_def)
  have c: "(\<exists>v. outcome (interpolate solve points times' (hd times') interp d) = Inr v)
        \<and> (\<exists>v. outcome (interpolate solve points times' (last times') interp d) = Inr v)"
    if "2 \<le> length points \<and> length points = length times' \<and> (d = 0 \<or> d = 1 \<or> d = 2)"
    using assms(1) ms that ends
    by (auto simp add: interpolate_cases)
  from a b c show ?thesis
    by blast
qed

theorem interpolate_fails_iff_precondition_violated_witness:
  "(\<exists>v. outcome (interpolate solve_symm_tridiag [0, 1, 4] [0, 10, 20] 10 SPLINE 0) = Inr v)
   \<and> (\<exists>v. outcome (interpolate solve_symm_tridiag [0, 1, 4] [0, 10, 20] 0 SPLINE 0) = Inr v)
   \<and> (\<exists>v. outcome (interpolate solve_symm_tridiag [0, 1, 4] [0, 10, 20] 20 SPLINE 0) = Inr v)
   \<and> (\<exists>msg. outcome (interpolate solve_symm_tridiag [0, 1, 4] [0, 10, 20] 21 SPLINE 0)
         = Inl (Invalid_argument msg))
   \<and> (\<exists>msg. outcome (interpolate solve_symm_tridiag [0, 1, 4] [0, 10, 20] 10 SPLINE 3)
         = Inl (Invalid_argument msg))"
proof -
  have s: "sorted_wrt (<) [0, 10, 20 :: real]"
    by simp
  have n: "SPLINE = SPLINE \<Longrightarrow> length [0, 1, 4 :: real] \<noteq> 2"
    by simp
  show ?thesis
    using
      interpolate_fails_iff_precondition_violated
        [of "[0, 10, 20]" SPLINE "[0, 1, 4]" solve_symm_tridiag 10 0, OF s n]
      interpolate_fails_iff_precondition_violated
        [of "[0, 10, 20]" SPLINE "[0, 1, 4]" solve_symm_tridiag 21 0, OF s n]
      interpolate_fails_iff_precondition_violated
        [of "[0, 10, 20]" SPLINE "[0, 1, 4]" solve_symm_tridiag 10 3, OF s n]
    by (simp add: precondition_violated_def)
qed

text \<open>
  The claim as stated fails for the cubic-spline method with two samples: all four
  preconditions hold and the call ends in the GSL error handler.
\<close>

theorem interpolate_spline_two_samples_counterexample:
  "outcome (interpolate solve_symm_tridiag [0, 1] [0, 10] 5 SPLINE 0)
     = Inl (Gsl_error ''insufficient number of points for interpolation type'')
   \<and> \<not> precondition_violated [0, 1] [0, 10] 5 0"
  by (simp add: interpolate_cases min_size_def precondition_violated_def)

section \<open>Where the derivative order is checked\<close>

text \<open>
  C3. The derivative order is the one precondition that \<^const>\<open>interpolate\<close> checks after
  construction. When the three checks on the data pass, GSL accepts the data and the
  order is not 0, 1 or 2, the call has allocated and initialised the interpolant and
  allocated the accelerator when it throws, and it frees neither. The claim that every
  precondition is checked before any construction does not hold of the code.
\<close>

theorem derivative_order_checked_after_construction:
  assumes "2 \<le> length points" "length points = length times'"
    "hd times' \<le> time" "time \<le> last times'" "min_size interp \<le> length points"
    "sorted_wrt (<) times'" "d \<noteq> 0" "d \<noteq> 1" "d \<noteq> 2"
  shows "interpolate solve points times' time interp d =
     ([Interp_alloc, Interp_init, Accel_alloc],
      Inl (Invalid_argument ''Invalid derivitive option, must be 0, 1 or 2.''))"
  using assms by (simp add: interpolate_cases)

theorem derivative_order_checked_after_construction_witness:
  "interpolate solve_symm_tridiag [0, 1] [0, 10] 5 LINEAR 3 =
     ([Interp_alloc, Interp_init, Accel_alloc],
      Inl (Invalid_argument ''Invalid derivitive option, must be 0, 1 or 2.''))"
  using derivative_order_checked_after_construction
          [of "[0, 1]" "[0, 10]" 5 LINEAR 3 solve_symm_tridiag]
  by (simp add: min_size_def)

section \<open>The cubic spline passes through the samples\<close>

text \<open>
  C9, as amended. For a channel of at least 3 samples with strictly increasing
  timestamps and every sample index \<open>i\<close>, \<^const>\<open>interpolate\<close> with the cubic-spline method
  and derivative order 0, queried at the \<open>i\<close>-th timestamp, returns the \<open>i\<close>-th sample
  value, whatever coefficients the tridiagonal solver produced: in real arithmetic at
  every index; in binary64 at every index but the last, when the timestamps and the
  sample are binary64 values and the three coefficients of the cubic that starts at the
  sample are finite.
\<close>

theorem spline_through_samples:
  "(3 \<le> length points \<and> length points = length times' \<and> sorted_wrt (<) times'
      \<and> i < length points \<longrightarrow>
      outcome (interpolate solve points times' (times' ! i) SPLINE 0) = Inr (points ! i))
   \<and> (3 \<le> length points \<and> length points = length times' \<and> sorted_wrt (<) times'
        \<and> i + 1 < length points \<and> list_all is_binary64 times' \<and> is_binary64 (points ! i)
        \<and> finite_coefficients solve64 points times' i \<longrightarrow>
        outcome (interpolate_binary64 solve64 points times' (times' ! i) SPLINE 0)
          = Inr (Finite (points ! i)))"
proof (intro conjI impI)
  assume "3 \<le> length points \<and> length points = length times' \<and> sorted_wrt (<) times'
      \<and> i < length points"
  then show "outcome (interpolate solve points times' (times' ! i) SPLINE 0) = Inr (points ! i)"
    by (intro interpolate_spline_knot) simp_all
next
  assume "3 \<le> length points \<and> length points = length times' \<and> sorted_wrt (<) times'
        \<and> i + 1 < length points \<and> list_all is_binary64 times' \<and> is_binary64 (points ! i)
        \<and> finite_coefficients solve64 points times' i"
  then show "outcome (interpolate_binary64 solve64 points times' (times' ! i) SPLINE 0)
          = Inr (Finite (points ! i))"
    by (intro interpolate_binary64_spline_knot) simp_all
qed

theorem spline_through_samples_witness:
  "outcome (interpolate solve_symm_tridiag [0, 1, 1] [0, 1, 3] 1 SPLINE 0) = Inr 1
   \<and> outcome (interpolate_binary64 solve_symm_tridiag_binary64 [0, 1, 1] [0, 1, 3] 1 SPLINE 0)
       = Inr (Finite 1)
   \<and> outcome (interpolate solve_symm_tridiag [3, 1, 4, 1] [0, 1, 3, 7] 7 SPLINE 0) = Inr 1"
  using spline_through_samples
      [of "[0, 1, 1]" "[0, 1, 3]" 1 solve_symm_tridiag solve_symm_tridiag_binary64]
    spline_through_samples
      [of "[3, 1, 4, 1]" "[0, 1, 3, 7]" 3 solve_symm_tridiag solve_symm_tridiag_binary64]
    spline_example_finite
  by (simp add: is_binary64_def binary64_round_values)

text \<open>
  With exactly two samples the cubic-spline method returns no value: GSL's spline type
  needs three points. In binary64 the last sample is not always returned: for the
  samples \<open>(0, 0)\<close>, \<open>(1, 1)\<close>, \<open>(3, 1)\<close> the cubic of the last interval, evaluated at its
  right end, is \<open>1 - 2\<^sup>-\<^sup>5\<^sup>2\<close>. And a sample that is not the last is not returned when a
  coefficient overflows: for the samples \<open>(0, 2\<^sup>1\<^sup>0\<^sup>2\<^sup>3)\<close>, \<open>(1, - 2\<^sup>1\<^sup>0\<^sup>2\<^sup>3)\<close>, \<open>(2, 2\<^sup>1\<^sup>0\<^sup>2\<^sup>3)\<close> the
  value at the first timestamp is a NaN. The timestamps and samples are binary64 values.
\<close>

theorem spline_through_samples_counterexample:
  "outcome (interpolate solve_symm_tridiag [3, 4] [0, 1] ([0, 1] ! 0) SPLINE 0)
     = Inl (Gsl_error ''insufficient number of points for interpolation type'')
   \<and> outcome (interpolate solve_symm_tridiag [3, 4] [0, 1] ([0, 1] ! 0) SPLINE 0)
       \<noteq> Inr ([3, 4] ! 0)
   \<and> outcome (interpolate_binary64 solve_symm_tridiag_binary64
                [0, 1, 1] [0, 1, 3] ([0, 1, 3] ! 2) SPLINE 0)
       = Inr (Finite (4503599627370495 / 4503599627370496))
   \<and> outcome (interpolate_binary64 solve_symm_tridiag_binary64
                [0, 1, 1] [0, 1, 3] ([0, 1, 3] ! 2) SPLINE 0)
       \<noteq> Inr (Finite ([0, 1, 1] ! 2))
   \<and> list_all is_binary64 [0, 1, 3]
   \<and> outcome (interpolate_binary64 solve_symm_tridiag_binary64
                [2 ^ 1023, - (2 ^ 1023), 2 ^ 1023] [0, 1, 2] ([0, 1, 2] ! 0) SPLINE 0)
       = Inr NaN
   \<and> list_all is_binary64 [2 ^ 1023, - (2 ^ 1023), 2 ^ 1023] \<and> list_all is_binary64 [0, 1, 2]"
proof (intro conjI)
  show "outcome (interpolate solve_symm_tridiag [3, 4] [0, 1] ([0, 1] ! 0) SPLINE 0)
     = Inl (Gsl_error ''insufficient number of points for interpolation type'')"
    by (simp add: interpolate_cases min_size_def)
  show "outcome (interpolate solve_symm_tridiag [3, 4] [0, 1] ([0, 1] ! 0) SPLINE 0)
       \<noteq> Inr ([3, 4] ! 0)"
    by (simp add: interpolate_cases min_size_def)
  have last_knot: "outcome (interpolate_binary64 solve_symm_tridiag_binary64
                [0, 1, 1] [0, 1, 3] ([0, 1, 3] ! 2) SPLINE 0)
       = Inr (Finite (4503599627370495 / 4503599627370496))"
    using spline_example_last_index
    by (simp add: interpolate_binary64_cases min_size_def interp_value_binary64_def
        cspline_eval_binary64_def cspline_init_binary64_def coeff_calc_binary64_def
        Let_def double_gt0_def double_ne0_def binary64_round_values)
  show "outcome (interpolate_binary64 solve_symm_tridiag_binary64
                [0, 1, 1] [0, 1, 3] ([0, 1, 3] ! 2) SPLINE 0)
       = Inr (Finite (4503599627370495 / 4503599627370496))"
    by (rule last_knot)
  show "outcome (interpolate_binary64 solve_symm_tridiag_binary64
                [0, 1, 1] [0, 1, 3] ([0, 1, 3] ! 2) SPLINE 0)
       \<noteq> Inr (Finite ([0, 1, 1] ! 2))"
    unfolding last_knot by simp
  show "list_all is_binary64 [0, 1, 3]" "list_all is_binary64 [0, 1, 2]"
    by (simp_all add: is_binary64_def binary64_round_values)
  have big: "binary64_round (2 ^ 1023) = Finite (2 ^ 1023)"
    "binary64_round (- (2 ^ 1023)) = Finite (- (2 ^ 1023))"
    using binary64_round_at_top[of "2 ^ 1023"] binary64_round_at_top[of "- (2 ^ 1023)"]
    by (simp_all add: round_half_even_def)
  show "list_all is_binary64 [2 ^ 1023, - (2 ^ 1023), 2 ^ 1023]"
    using big by (simp add: is_binary64_def)
  show "outcome (interpolate_binary64 solve_symm_tridiag_binary64
                [2 ^ 1023, - (2 ^ 1023), 2 ^ 1023] [0, 1, 2] ([0, 1, 2] ! 0) SPLINE 0)
       = Inr NaN"
    using spline_example_first_index
    by (simp add: interpolate_binary64_cases min_size_def interp_value_binary64_def
        cspline_eval_binary64_def cspline_init_binary64_def coeff_calc_binary64_def
        Let_def double_gt0_def double_ne0_def binary64_round_values
        binary64_round_plus_overflow binary64_round_minus_overflow)
qed

section \<open>Facts about the rotation operations\<close>

subsection \<open>The per-sample normalization loop\<close>

lemma normalize_samples_out_of_range:
  assumes "length r1 < length r0 \<or> length r2 < length r0 \<or> length r3 < length r0"
    and "i \<le> length r1" "i \<le> length r2" "i \<le> length r3"
  shows "\<exists>es. normalize_samples i (r0, r1, r2, r3) = (es, Inl Out_of_range_access)"
  using assms
proof (induction "length r0 - i" arbitrary: i r0 r1 r2 r3)
  case 0
  then show ?case by auto
next
  case (Suc m)
  have lt: "i < length r0"
    using Suc.hyps(2) by simp
  show ?case
  proof (cases "i < length r1 \<and> i < length r2 \<and> i < length r3")
    case False
    then show ?thesis
      using lt by (auto simp add: normalize_samples.simps[of i] raise_def)
  next
    case True
    define q where "q = normalize_vec [r0 ! i, r1 ! i, r2 ! i, r3 ! i]"
    have "\<exists>es. normalize_samples (i + 1)
            (r0[i := q ! 0], r1[i := q ! 1], r2[i := q ! 2], r3[i := q ! 3])
          = (es, Inl Out_of_range_access)"
      using Suc.hyps(2) Suc.prems True
      by (intro Suc.hyps(1)) auto
    then show ?thesis
      using lt True by (auto simp add: normalize_samples.simps[of i] Let_def q_def)
  qed
qed

lemma renormalized_step:
  assumes "i < length r0" "i < length r"
    and "q = normalize_vec [r0 ! i, r1 ! i, r2 ! i, r3 ! i]"
  shows "renormalized (Suc i) (r0[i := a0]) (r1[i := a1]) (r2[i := a2]) (r3[i := a3]) k
           (r[i := q ! k])
         = renormalized i r0 r1 r2 r3 k r"
proof (rule nth_equalityI)
  show "length (renormalized (Suc i) (r0[i := a0]) (r1[i := a1]) (r2[i := a2]) (r3[i := a3]) k
           (r[i := q ! k])) = length (renormalized i r0 r1 r2 r3 k r)"
    by (simp add: renormalized_def)
next
  fix j
  assume "j < length (renormalized (Suc i) (r0[i := a0]) (r1[i := a1]) (r2[i := a2])
           (r3[i := a3]) k (r[i := q ! k]))"
  then have j: "j < length r"
    by (simp add: renormalized_def)
  show "renormalized (Suc i) (r0[i := a0]) (r1[i := a1]) (r2[i := a2]) (r3[i := a3]) k
           (r[i := q ! k]) ! j = renormalized i r0 r1 r2 r3 k r ! j"
  proof (cases "j = i")
    case True
    then show ?thesis
      using assms j by (simp add: renormalized_def)
  next
    case False
    then show ?thesis
      using assms j by (simp add: renormalized_def)
  qed
qed

lemma normalize_samples_in_range:
  assumes "length r0 \<le> length r1" "length r0 \<le> length r2" "length r0 \<le> length r3"
  shows "normalize_samples i (r0, r1, r2, r3)
        = (replicate (length r0 - i) Quaternion_normalize,
           Inr (renormalized i r0 r1 r2 r3 0 r0, renormalized i r0 r1 r2 r3 1 r1,
                renormalized i r0 r1 r2 r3 2 r2, renormalized i r0 r1 r2 r3 3 r3))"
  using assms
proof (induction "length r0 - i" arbitrary: i r0 r1 r2 r3)
  case 0
  then have ge: "length r0 \<le> i"
    by simp
  have id: "renormalized i r0 r1 r2 r3 k r = r" for k r
    using ge by (auto simp add: renormalized_def intro!: nth_equalityI)
  show ?case
    using ge by (simp add: normalize_samples.simps[of i] succeed_def id)
next
  case (Suc m)
  have lt: "i < length r0" "i < length r1" "i < length r2" "i < length r3"
    using Suc.hyps(2) Suc.prems by simp_all
  define q where "q = normalize_vec [r0 ! i, r1 ! i, r2 ! i, r3 ! i]"
  define u0 where "u0 = r0[i := q ! 0]"
  define u1 where "u1 = r1[i := q ! 1]"
  define u2 where "u2 = r2[i := q ! 2]"
  define u3 where "u3 = r3[i := q ! 3]"
  have len: "length u0 = length r0" "length u1 = length r1" "length u2 = length r2"
    "length u3 = length r3"
    by (simp_all add: u0_def u1_def u2_def u3_def)
  have m: "m = length u0 - (i + 1)"
    using Suc.hyps(2) len by simp
  have le: "length u0 \<le> length u1" "length u0 \<le> length u2" "length u0 \<le> length u3"
    using Suc.prems len by simp_all
  have run: "normalize_samples (i + 1) (u0, u1, u2, u3)
        = (replicate (length u0 - (i + 1)) Quaternion_normalize,
           Inr (renormalized (i + 1) u0 u1 u2 u3 0 u0, renormalized (i + 1) u0 u1 u2 u3 1 u1,
                renormalized (i + 1) u0 u1 u2 u3 2 u2, renormalized (i + 1) u0 u1 u2 u3 3 u3))"
    by (rule Suc.hyps(1)[OF m le])
  have st: "renormalized (i + 1) u0 u1 u2 u3 0 u0 = renormalized i r0 r1 r2 r3 0 r0"
    "renormalized (i + 1) u0 u1 u2 u3 1 u1 = renormalized i r0 r1 r2 r3 1 r1"
    "renormalized (i + 1) u0 u1 u2 u3 2 u2 = renormalized i r0 r1 r2 r3 2 r2"
    "renormalized (i + 1) u0 u1 u2 u3 3 u3 = renormalized i r0 r1 r2 r3 3 r3"
    unfolding u0_def u1_def u2_def u3_def
    using renormalized_step[OF lt(1) lt(1) q_def] renormalized_step[OF lt(1) lt(2) q_def]
      renormalized_step[OF lt(1) lt(3) q_def] renormalized_step[OF lt(1) lt(4) q_def]
    by simp_all
  have ev: "replicate (length r0 - i) Quaternion_normalize
        = Quaternion_normalize # replicate (length u0 - (i + 1)) Quaternion_normalize"
    using lt(1) len(1) by (simp add: Suc_diff_Suc flip: replicate_Suc)
  have "normalize_samples i (r0, r1, r2, r3)
      = (case normalize_samples (i + 1) (u0, u1, u2, u3) of
           (es, r) \<Rightarrow> (Quaternion_normalize # es, r))"
    unfolding u0_def u1_def u2_def u3_def q_def using lt
    by (simp add: normalize_samples.simps[of i] Let_def)
  then show ?case
    unfolding run st ev by simp
qed

subsection \<open>Outcomes of sequenced computations\<close>

lemma outcome_and_then:
  "outcome (and_then m f) = (case outcome m of Inl e \<Rightarrow> Inl e | Inr x \<Rightarrow> outcome (f x))"
  by (cases m) (auto simp add: and_then_def split: sum.splits prod.splits)

lemma outcome_simps [simp]:
  "outcome (raise e) = Inl e" "outcome (succeed x) = Inr x" "outcome (call ev x) = Inr x"
  by (simp_all add: raise_def succeed_def call_def)

lemma interpolate_not_out_of_range:
  "outcome (interpolate solve points times' time interp d) \<noteq> Inl Out_of_range_access"
  by (simp add: interpolate_cases)

subsection \<open>Normalization\<close>

lemma squaredNorm4: "squaredNorm [w, x, y, z] = w * w + x * x + y * y + z * z"
  by (simp add: squaredNorm_def)



lemma normalize_vec_unit_or_zero:
  "normalize_vec [w, x, y, z] = [0, 0, 0, 0]
   \<or> euclidean_norm (normalize_vec [w, x, y, z]) = 1"
proof (cases "squaredNorm [w, x, y, z] > 0")
  case True
  define s where "s = squaredNorm [w, x, y, z]"
  have s: "s = w * w + x * x + y * y + z * z" "0 < s"
    using True by (simp_all add: s_def squaredNorm4)
  have sq: "a / sqrt s * (a / sqrt s) = a * a / s" for a
    using s(2) by (simp add: field_simps)
  have "normalize_vec [w, x, y, z] = [w / sqrt s, x / sqrt s, y / sqrt s, z / sqrt s]"
    using True by (simp add: normalize_vec_def s_def[symmetric])
  then have "squaredNorm (normalize_vec [w, x, y, z])
      = w * w / s + x * x / s + y * y / s + z * z / s"
    using s(2) by (simp add: squaredNorm4)
  also have "\<dots> = (w * w + x * x + y * y + z * z) / s"
    by (simp add: add_divide_distrib)
  also have "\<dots> = 1"
    using s by simp
  finally show ?thesis
    by (simp add: euclidean_norm_def)
next
  case False
  from False have le: "w * w + x * x + y * y + z * z \<le> 0"
    by (simp add: squaredNorm4 not_less)
  have "w * w = 0 \<and> x * x = 0 \<and> y * y = 0 \<and> z * z = 0"
    using le zero_le_square[of w] zero_le_square[of x] zero_le_square[of y]
      zero_le_square[of z]
    by linarith
  then have "w = 0 \<and> x = 0 \<and> y = 0 \<and> z = 0"
    by simp
  then show ?thesis
    using False by (simp add: normalize_vec_def)
qed

subsection \<open>The rotation operations after the shape check\<close>

lemma rotation_body_outcome:
  assumes "length r0 \<le> length r1" "length r0 \<le> length r2" "length r0 \<le> length r3"
  shows "outcome
      (and_then (normalize_samples 0 (r0, r1, r2, r3))
        (\<lambda>(r0, r1, r2, r3).
          and_then (interpolate solve r0 times' time interp d) (\<lambda>w.
          and_then (interpolate solve r1 times' time interp d) (\<lambda>x.
          and_then (interpolate solve r2 times' time interp d) (\<lambda>y.
          and_then (interpolate solve r3 times' time interp d) (\<lambda>z.
          call Vector_normalize (normalize_vec [w, x, y, z])))))))
    = (case outcome (interpolate solve (renormalized 0 r0 r1 r2 r3 0 r0) times' time interp d) of
         Inl e \<Rightarrow> Inl e
       | Inr w \<Rightarrow>
      (case outcome (interpolate solve (renormalized 0 r0 r1 r2 r3 1 r1) times' time interp d) of
         Inl e \<Rightarrow> Inl e
       | Inr x \<Rightarrow>
      (case outcome (interpolate solve (renormalized 0 r0 r1 r2 r3 2 r2) times' time interp d) of
         Inl e \<Rightarrow> Inl e
       | Inr y \<Rightarrow>
      (case outcome (interpolate solve (renormalized 0 r0 r1 r2 r3 3 r3) times' time interp d) of
         Inl e \<Rightarrow> Inl e
       | Inr z \<Rightarrow> Inr (normalize_vec [w, x, y, z])))))"
  by (simp add: normalize_samples_in_range[OF assms] outcome_and_then
      split: sum.splits)

lemma rotation_body_out_of_range:
  assumes "length r1 < length r0 \<or> length r2 < length r0 \<or> length r3 < length r0"
  shows "outcome (and_then (normalize_samples 0 (r0, r1, r2, r3)) f) = Inl Out_of_range_access"
proof -
  obtain es where "normalize_samples 0 (r0, r1, r2, r3) = (es, Inl Out_of_range_access)"
    using normalize_samples_out_of_range[OF assms, of 0] by auto
  then show ?thesis
    by simp
qed

lemma rotation_body_in_range:
  assumes "length r0 \<le> length r1" "length r0 \<le> length r2" "length r0 \<le> length r3"
  shows "outcome
      (and_then (normalize_samples 0 (r0, r1, r2, r3))
        (\<lambda>(r0, r1, r2, r3).
          and_then (interpolate solve r0 times' time interp d) (\<lambda>w.
          and_then (interpolate solve r1 times' time interp d) (\<lambda>x.
          and_then (interpolate solve r2 times' time interp d) (\<lambda>y.
          and_then (interpolate solve r3 times' time interp d) (\<lambda>z.
          call Vector_normalize (normalize_vec [w, x, y, z])))))))
    \<noteq> Inl Out_of_range_access"
  unfolding rotation_body_outcome[OF assms]
  using interpolate_not_out_of_range[of solve _ times' time interp d]
  by (auto split: sum.splits)

lemma rotation_body_norm:
  assumes "outcome
      (and_then (normalize_samples 0 (r0, r1, r2, r3))
        (\<lambda>(r0, r1, r2, r3).
          and_then (interpolate solve r0 times' time interp d) (\<lambda>w.
          and_then (interpolate solve r1 times' time interp d) (\<lambda>x.
          and_then (interpolate solve r2 times' time interp d) (\<lambda>y.
          and_then (interpolate solve r3 times' time interp d) (\<lambda>z.
          call Vector_normalize (normalize_vec [w, x, y, z]))))))) = Inr q"
  shows "q = [0, 0, 0, 0] \<or> euclidean_norm q = 1"
proof -
  have "\<exists>w x y z. q = normalize_vec [w, x, y, z]"
    using assms
    by (auto simp add: outcome_and_then call_def split: sum.splits prod.splits)
  then show ?thesis
    using normalize_vec_unit_or_zero by auto
qed

section \<open>Bounds of the per-sample normalization loop\<close>

text \<open>
  C10. For a 4-channel input whose channels 1, 2 and 3 are each at least as long as
  channel 0, the per-sample loop of \<^const>\<open>getRotation\<close> and \<^const>\<open>getAngularVelocity\<close> runs
  over all indices of channel 0 with every read and write in range. Nothing checks the
  condition before the loop: each operation ends in an out-of-range access exactly when
  it is given 4 channels of which channel 1, 2 or 3 is shorter than channel 0.
\<close>

theorem rotation_loop_in_bounds:
  "(length r0 \<le> length r1 \<and> length r0 \<le> length r2 \<and> length r0 \<le> length r3 \<longrightarrow>
      (\<exists>channels. normalize_samples 0 (r0, r1, r2, r3)
          = (replicate (length r0) Quaternion_normalize, Inr channels)))
   \<and> (outcome (getRotation solve rotations times' time interp) = Inl Out_of_range_access
        \<longleftrightarrow> length rotations = 4
            \<and> (length (rotations ! 1) < length (rotations ! 0)
               \<or> length (rotations ! 2) < length (rotations ! 0)
               \<or> length (rotations ! 3) < length (rotations ! 0)))
   \<and> (outcome (getAngularVelocity solve rotations times' time interp) = Inl Out_of_range_access
        \<longleftrightarrow> length rotations = 4
            \<and> (length (rotations ! 1) < length (rotations ! 0)
               \<or> length (rotations ! 2) < length (rotations ! 0)
               \<or> length (rotations ! 3) < length (rotations ! 0)))"
proof (intro conjI impI)
  assume "length r0 \<le> length r1 \<and> length r0 \<le> length r2 \<and> length r0 \<le> length r3"
  then show "\<exists>channels. normalize_samples 0 (r0, r1, r2, r3)
          = (replicate (length r0) Quaternion_normalize, Inr channels)"
    using normalize_samples_in_range[of r0 r1 r2 r3 0] by simp
next
  show "outcome (getRotation solve rotations times' time interp) = Inl Out_of_range_access
        \<longleftrightarrow> length rotations = 4
            \<and> (length (rotations ! 1) < length (rotations ! 0)
               \<or> length (rotations ! 2) < length (rotations ! 0)
               \<or> length (rotations ! 3) < length (rotations ! 0))"
  proof (cases "length rotations = 4")
    case False
    then show ?thesis
      by (simp add: getRotation_def)
  next
    case True
    show ?thesis
    proof (cases "length (rotations ! 1) < length (rotations ! 0)
               \<or> length (rotations ! 2) < length (rotations ! 0)
               \<or> length (rotations ! 3) < length (rotations ! 0)")
      case short: True
      then show ?thesis
        using True unfolding getRotation_def
        by (simp only: rotation_body_out_of_range[OF short] if_False simp_thms)
    next
      case long: False
      then have le: "length (rotations ! 0) \<le> length (rotations ! 1)"
        "length (rotations ! 0) \<le> length (rotations ! 2)"
        "length (rotations ! 0) \<le> length (rotations ! 3)"
        by simp_all
      show ?thesis
        using True long rotation_body_in_range[OF le, of solve times' time interp 0]
        unfolding getRotation_def by simp
    qed
  qed
next
  show "outcome (getAngularVelocity solve rotations times' time interp) = Inl Out_of_range_access
        \<longleftrightarrow> length rotations = 4
            \<and> (length (rotations ! 1) < length (rotations ! 0)
               \<or> length (rotations ! 2) < length (rotations ! 0)
               \<or> length (rotations ! 3) < length (rotations ! 0))"
  proof (cases "length rotations = 4")
    case False
    then show ?thesis
      by (simp add: getAngularVelocity_def)
  next
    case True
    show ?thesis
    proof (cases "length (rotations ! 1) < length (rotations ! 0)
               \<or> length (rotations ! 2) < length (rotations ! 0)
               \<or> length (rotations ! 3) < length (rotations ! 0)")
      case short: True
      then show ?thesis
        using True unfolding getAngularVelocity_def
        by (simp only: rotation_body_out_of_range[OF short] if_False simp_thms)
    next
      case long: False
      then have le: "length (rotations ! 0) \<le> length (rotations ! 1)"
        "length (rotations ! 0) \<le> length (rotations ! 2)"
        "length (rotations ! 0) \<le> length (rotations ! 3)"
        by simp_all
      show ?thesis
        using True long rotation_body_in_range[OF le, of solve times' time interp 1]
        unfolding getAngularVelocity_def by simp
    qed
  qed
qed

theorem rotation_loop_in_bounds_witness:
  "(\<exists>channels. normalize_samples 0 ([1, 1], [0, 0], [0, 0], [0, 0])
        = (replicate (length [1, 1 :: real]) Quaternion_normalize, Inr channels))
   \<and> outcome (getRotation solve_symm_tridiag [[1, 1], [0], [0, 0], [0, 0]] [0, 1] (1 / 2) LINEAR)
       = Inl Out_of_range_access
   \<and> outcome (getAngularVelocity solve_symm_tridiag [[1, 1], [0], [0, 0], [0, 0]] [0, 1] (1 / 2)
        LINEAR) = Inl Out_of_range_access"
  using rotation_loop_in_bounds
          [of "[1, 1]" "[0, 0]" "[0, 0]" "[0, 0]" solve_symm_tridiag
              "[[1, 1], [0], [0, 0], [0, 0]]" "[0, 1]" "1 / 2" LINEAR]
  by simp

section \<open>A constant unit quaternion at two timestamps\<close>









section \<open>The interpolated 4-tuple and its normalization\<close>











section \<open>Norm of the rotation results\<close>




section \<open>The rotation pipeline\<close>




section \<open>Facts about the polynomial evaluation\<close>

subsection \<open>The cells of the repeated Horner scheme\<close>

lemma horner_cell_last:
  assumes "Suc j = length c"
  shows "horner_cell c x l j = c ! j"
proof -
  have "{j..<length c} = {j}"
    using assms by auto
  then show ?thesis
    by (simp add: horner_cell_def)
qed

lemma horner_cell_split:
  assumes "j < length c"
  shows "horner_cell c x l j =
     c ! j + (\<Sum>i = Suc j..<length c. of_nat ((i - j + l) choose l) * c ! i * x ^ (i - j))"
  using assms by (simp add: horner_cell_def sum.atLeast_Suc_lessThan)

lemma horner_cell_shift:
  "x * horner_cell c x l (Suc j) =
     (\<Sum>i = Suc j..<length c. of_nat ((i - Suc j + l) choose l) * c ! i * x ^ (i - j))"
proof -
  have "x * horner_cell c x l (Suc j) =
     (\<Sum>i = Suc j..<length c. x * (of_nat ((i - Suc j + l) choose l) * c ! i * x ^ (i - Suc j)))"
    by (simp add: horner_cell_def sum_distrib_left)
  also have "\<dots> = (\<Sum>i = Suc j..<length c. of_nat ((i - Suc j + l) choose l) * c ! i * x ^ (i - j))"
  proof (rule sum.cong[OF refl])
    fix i
    assume "i \<in> {Suc j..<length c}"
    then have "i - j = Suc (i - Suc j)"
      by auto
    then show "x * (of_nat ((i - Suc j + l) choose l) * c ! i * x ^ (i - Suc j))
        = of_nat ((i - Suc j + l) choose l) * c ! i * x ^ (i - j)"
      by simp
  qed
  finally show ?thesis .
qed

lemma horner_cell_zero_step:
  assumes "Suc j < length c"
  shows "horner_cell c x 0 j = x * horner_cell c x 0 (Suc j) + c ! j"
proof -
  have "j < length c"
    using assms by simp
  then show ?thesis
    unfolding horner_cell_shift by (simp add: horner_cell_split)
qed

lemma horner_cell_step:
  assumes "Suc j < length c" "1 \<le> l"
  shows "horner_cell c x l j = x * horner_cell c x l (Suc j) + horner_cell c x (l - 1) j"
proof -
  have j: "j < length c"
    using assms by simp
  obtain l' where l: "l = Suc l'"
    using assms(2) by (cases l) auto
  have pascal: "((i - j + l) choose l) = ((i - Suc j + l) choose l) + ((i - j + l') choose l')"
    if "i \<in> {Suc j..<length c}" for i
  proof -
    from that have "i - j + l = Suc (i - Suc j + l)" "i - j + l' = i - Suc j + l"
      by (auto simp add: l)
    then show ?thesis
      by (simp add: l)
  qed
  have "(\<Sum>i = Suc j..<length c. of_nat ((i - j + l) choose l) * c ! i * x ^ (i - j))
      = (\<Sum>i = Suc j..<length c.
           of_nat ((i - Suc j + l) choose l) * c ! i * x ^ (i - j)
           + of_nat ((i - j + l') choose l') * c ! i * x ^ (i - j))"
  proof (rule sum.cong[OF refl])
    fix i
    assume i: "i \<in> {Suc j..<length c}"
    have "(of_nat ((i - j + l) choose l) :: real)
        = of_nat ((i - Suc j + l) choose l) + of_nat ((i - j + l') choose l')"
      unfolding pascal[OF i] by (rule of_nat_add)
    then show "of_nat ((i - j + l) choose l) * c ! i * x ^ (i - j)
        = of_nat ((i - Suc j + l) choose l) * c ! i * x ^ (i - j)
          + of_nat ((i - j + l') choose l') * c ! i * x ^ (i - j)"
      by (simp only: distrib_right)
  qed
  also have "\<dots> = (\<Sum>i = Suc j..<length c. of_nat ((i - Suc j + l) choose l) * c ! i * x ^ (i - j))
      + (\<Sum>i = Suc j..<length c. of_nat ((i - j + l') choose l') * c ! i * x ^ (i - j))"
    by (simp add: sum.distrib)
  finally show ?thesis
    unfolding horner_cell_shift horner_cell_split[OF j] by (simp add: l)
qed

lemma horner_cell_diagonal:
  "fact l * horner_cell c x l l = poly_derivative l c x"
proof -
  have "fact l * horner_cell c x l l =
      (\<Sum>i = l..<length c. fact l * (of_nat ((i - l + l) choose l) * c ! i * x ^ (i - l)))"
    by (simp add: horner_cell_def sum_distrib_left)
  also have "\<dots> = (\<Sum>i = l..<length c. of_nat (fact l * (i choose l)) * c ! i * x ^ (i - l))"
    by (rule sum.cong[OF refl]) simp
  finally show ?thesis
    by (simp add: poly_derivative_def)
qed

lemma poly_derivative_beyond_degree:
  assumes "length c \<le> d"
  shows "poly_derivative d c t = 0"
  using assms by (simp add: poly_derivative_def)

lemma poly_derivative_zero: "poly_derivative 0 c = poly_value c"
  by (rule ext) (simp add: poly_derivative_def poly_value_def atLeast0LessThan)

subsection \<open>The three loops of the derivative evaluation\<close>

lemma derivs_init_loop_result:
  assumes "length res = lenres" "n = min i lenc"
  shows "length (fst (derivs_init_loop c lenc lenres i n nmax res)) = lenres
     \<and> (\<forall>j < lenres. fst (derivs_init_loop c lenc lenres i n nmax res) ! j
           = (if j < i then res ! j else if j < lenc then c ! (lenc - 1) else 0))
     \<and> snd (derivs_init_loop c lenc lenres i n nmax res)
           = (if i < lenres \<and> i < lenc then min lenres lenc - 1 else nmax)"
  using assms
proof (induction c lenc lenres i n nmax res rule: derivs_init_loop.induct)
  case (1 c lenc lenres i n nmax res)
  show ?case
  proof (cases "i < lenres")
    case False
    then show ?thesis
      using "1.prems" by (simp add: derivs_init_loop.simps[of c lenc lenres i])
  next
    case True
    show ?thesis
    proof (cases "n < lenc")
      case lt: True
      then have ni: "n = i" "i < lenc"
        using "1.prems" by auto
      have eq: "derivs_init_loop c lenc lenres i n nmax res
          = derivs_init_loop c lenc lenres (i + 1) (n + 1) n (res[i := c ! (lenc - 1)])"
        using True lt by (simp add: derivs_init_loop.simps[of c lenc lenres i])
      have ih: "length (fst (derivs_init_loop c lenc lenres (i + 1) (n + 1) n
                   (res[i := c ! (lenc - 1)]))) = lenres
         \<and> (\<forall>j < lenres. fst (derivs_init_loop c lenc lenres (i + 1) (n + 1) n
                   (res[i := c ! (lenc - 1)])) ! j
              = (if j < i + 1 then (res[i := c ! (lenc - 1)]) ! j
                 else if j < lenc then c ! (lenc - 1) else 0))
         \<and> snd (derivs_init_loop c lenc lenres (i + 1) (n + 1) n (res[i := c ! (lenc - 1)]))
              = (if i + 1 < lenres \<and> i + 1 < lenc then min lenres lenc - 1 else n)"
        using "1.IH"(1)[OF True lt] "1.prems" ni by simp
      show ?thesis
        unfolding eq using ih True ni "1.prems"(1)
        by (auto simp add: nth_list_update min_def)
    next
      case ge: False
      then have ni: "n = lenc" "lenc \<le> i"
        using "1.prems" by (auto simp add: min_def split: if_splits)
      have eq: "derivs_init_loop c lenc lenres i n nmax res
          = derivs_init_loop c lenc lenres (i + 1) n nmax (res[i := 0])"
        using True ge by (simp add: derivs_init_loop.simps[of c lenc lenres i])
      have ih: "length (fst (derivs_init_loop c lenc lenres (i + 1) n nmax (res[i := 0])))
             = lenres
         \<and> (\<forall>j < lenres. fst (derivs_init_loop c lenc lenres (i + 1) n nmax (res[i := 0])) ! j
              = (if j < i + 1 then (res[i := 0]) ! j
                 else if j < lenc then c ! (lenc - 1) else 0))
         \<and> snd (derivs_init_loop c lenc lenres (i + 1) n nmax (res[i := 0]))
              = (if i + 1 < lenres \<and> i + 1 < lenc then min lenres lenc - 1 else nmax)"
        using "1.IH"(2)[OF True ge] "1.prems" ni by simp
      show ?thesis
        unfolding eq using ih True ni "1.prems"(1)
        by (auto simp add: nth_list_update)
    qed
  qed
qed

lemma derivs_horner_inner_result:
  assumes "lmax < length res" "1 \<le> l" "Suc j < length c"
    and "res ! (l - 1) = horner_cell c x (l - 1) j"
    and "\<forall>m. l \<le> m \<and> m \<le> lmax \<longrightarrow> res ! m = horner_cell c x m (Suc j)"
  shows "length (derivs_horner_inner x lmax l res) = length res
     \<and> (\<forall>m. m < l \<or> lmax < m \<longrightarrow> derivs_horner_inner x lmax l res ! m = res ! m)
     \<and> (\<forall>m. l \<le> m \<and> m \<le> lmax \<longrightarrow> derivs_horner_inner x lmax l res ! m = horner_cell c x m j)"
  using assms
proof (induction x lmax l res rule: derivs_horner_inner.induct)
  case (1 x lmax l res)
  show ?case
  proof (cases "l \<le> lmax")
    case False
    then show ?thesis
      by (simp add: derivs_horner_inner.simps[of x lmax l])
  next
    case True
    define res' where "res' = res[l := x * res ! l + res ! (l - 1)]"
    have cell: "x * res ! l + res ! (l - 1) = horner_cell c x l j"
      using "1.prems" True horner_cell_step[of j c l x] by simp
    have l: "l < length res"
      using True "1.prems"(1) by simp
    have eq: "derivs_horner_inner x lmax l res = derivs_horner_inner x lmax (l + 1) res'"
      using True by (simp add: derivs_horner_inner.simps[of x lmax l] res'_def)
    have p1: "lmax < length res'" "1 \<le> l + 1"
      using "1.prems"(1) by (simp_all add: res'_def)
    have p2: "res' ! (l + 1 - 1) = horner_cell c x (l + 1 - 1) j"
      using l cell by (simp add: res'_def)
    have p3: "\<forall>m. l + 1 \<le> m \<and> m \<le> lmax \<longrightarrow> res' ! m = horner_cell c x m (Suc j)"
      using "1.prems"(5) by (simp add: res'_def)
    have ih: "length (derivs_horner_inner x lmax (l + 1) res') = length res'
       \<and> (\<forall>m. m < l + 1 \<or> lmax < m \<longrightarrow> derivs_horner_inner x lmax (l + 1) res' ! m = res' ! m)
       \<and> (\<forall>m. l + 1 \<le> m \<and> m \<le> lmax \<longrightarrow>
             derivs_horner_inner x lmax (l + 1) res' ! m = horner_cell c x m j)"
      using "1.IH"[OF True, folded res'_def, OF p1 "1.prems"(3) p2 p3] .
    have "length res' = length res"
      by (simp add: res'_def)
    with ih have len: "length (derivs_horner_inner x lmax l res) = length res"
      unfolding eq by simp
    have out: "derivs_horner_inner x lmax l res ! m = res ! m" if "m < l \<or> lmax < m" for m
    proof -
      have ne: "m \<noteq> l" using that True by auto
      have "m < l + 1 \<or> lmax < m" using that by auto
      with ih have "derivs_horner_inner x lmax (l + 1) res' ! m = res' ! m"
        by blast
      also have "res' ! m = res ! m"
        using ne by (simp add: res'_def)
      finally show ?thesis
        unfolding eq .
    qed
    have inn: "derivs_horner_inner x lmax l res ! m = horner_cell c x m j"
      if "l \<le> m \<and> m \<le> lmax" for m
    proof (cases "m = l")
      case True
      then have "m < l + 1 \<or> lmax < m" by simp
      with ih have "derivs_horner_inner x lmax (l + 1) res' ! m = res' ! m"
        by blast
      also have "res' ! m = horner_cell c x m j"
        using True l cell by (simp add: res'_def)
      finally show ?thesis
        unfolding eq .
    next
      case False
      then have "l + 1 \<le> m \<and> m \<le> lmax" using that by auto
      with ih show ?thesis
        unfolding eq by blast
    qed
    from len out inn show ?thesis
      by blast
  qed
qed

lemma derivs_horner_loop_result:
  assumes "lenc = length c" "nmax \<le> lenc - 1" "nmax < length res" "i \<le> lenc - 1"
    and "\<forall>l \<le> nmax. res ! l = horner_cell c x l (max l (lenc - 1 - i))"
  shows "length (derivs_horner_loop c lenc x nmax i res) = length res
     \<and> (\<forall>l \<le> nmax. derivs_horner_loop c lenc x nmax i res ! l = horner_cell c x l l)
     \<and> (\<forall>l. nmax < l \<longrightarrow> derivs_horner_loop c lenc x nmax i res ! l = res ! l)"
  using assms
proof (induction c lenc x nmax i res rule: derivs_horner_loop.induct)
  case (1 c lenc x nmax i res)
  show ?case
  proof (cases "i < lenc - 1")
    case False
    then have "lenc - 1 - i = 0"
      by simp
    then show ?thesis
      using False "1.prems"(5) by (simp add: derivs_horner_loop.simps[of c lenc x nmax i])
  next
    case True
    define k where "k = (lenc - 1) - i"
    define j where "j = k - 1"
    define res0 where "res0 = res[0 := x * res ! 0 + c ! (k - 1)]"
    define lmax where "lmax = (if nmax < k then nmax else k - 1)"
    define res1 where "res1 = derivs_horner_inner x lmax 1 res0"
    have k: "1 \<le> k" "k = Suc j" "Suc j < length c" "lenc - 1 - (i + 1) = j"
      using True "1.prems"(1) by (simp_all add: k_def j_def)
    have lm: "lmax \<le> nmax" "lmax \<le> j" "lmax < nmax \<Longrightarrow> lmax = j"
      using k by (auto simp add: lmax_def)
    have old: "res ! l = horner_cell c x l (max l k)" if "l \<le> nmax" for l
      using "1.prems"(5) that by (simp add: k_def)
    have eq: "derivs_horner_loop c lenc x nmax i res
        = derivs_horner_loop c lenc x nmax (i + 1) res1"
      using True
      by (simp add: derivs_horner_loop.simps[of c lenc x nmax i] Let_def res1_def lmax_def
          res0_def k_def)
    have len0: "length res0 = length res"
      by (simp add: res0_def)
    have pos: "0 < length res"
      using "1.prems"(3) by linarith
    have r00: "res0 ! 0 = horner_cell c x 0 j"
      using old[of 0] pos k horner_cell_zero_step[of j c x]
      by (simp add: res0_def)
    have r0m: "res0 ! m = res ! m" if "m \<noteq> 0" for m
      using that by (simp add: res0_def)
    have p5: "\<forall>m. 1 \<le> m \<and> m \<le> lmax \<longrightarrow> res0 ! m = horner_cell c x m (Suc j)"
    proof (intro allI impI)
      fix m
      assume m: "1 \<le> m \<and> m \<le> lmax"
      then have "m \<le> nmax" "max m k = k"
        using lm k by auto
      then show "res0 ! m = horner_cell c x m (Suc j)"
        using old[of m] r0m[of m] m k by simp
    qed
    have inner: "length res1 = length res0
       \<and> (\<forall>m. m < 1 \<or> lmax < m \<longrightarrow> res1 ! m = res0 ! m)
       \<and> (\<forall>m. 1 \<le> m \<and> m \<le> lmax \<longrightarrow> res1 ! m = horner_cell c x m j)"
      unfolding res1_def
      using derivs_horner_inner_result[of lmax res0 1 j c x] lm "1.prems"(3) len0 k(3) r00 p5
      by simp
    have inv: "\<forall>l \<le> nmax. res1 ! l = horner_cell c x l (max l (lenc - 1 - (i + 1)))"
    proof (intro allI impI)
      fix l
      assume l: "l \<le> nmax"
      consider "l = 0" | "1 \<le> l \<and> l \<le> lmax" | "lmax < l"
        by linarith
      then show "res1 ! l = horner_cell c x l (max l (lenc - 1 - (i + 1)))"
      proof cases
        case 1
        then show ?thesis
          using inner r00 k(4) by simp
      next
        case 2
        then have "max l j = j"
          using lm by simp
        then show ?thesis
          using inner 2 k(4) by simp
      next
        case 3
        then have "lmax = j"
          using lm l by simp
        then have mx: "max l j = l" "max l k = l"
          using 3 k by simp_all
        have "res1 ! l = res ! l"
          using inner 3 r0m[of l] by simp
        then show ?thesis
          using old[OF l] mx k(4) by simp
      qed
    qed
    have ih: "length (derivs_horner_loop c lenc x nmax (i + 1) res1) = length res1
       \<and> (\<forall>l \<le> nmax. derivs_horner_loop c lenc x nmax (i + 1) res1 ! l = horner_cell c x l l)
       \<and> (\<forall>l. nmax < l \<longrightarrow> derivs_horner_loop c lenc x nmax (i + 1) res1 ! l = res1 ! l)"
    proof (rule "1.IH"[OF True k_def res0_def lmax_def, folded res1_def])
      show "lenc = length c" by (rule "1.prems"(1))
      show "nmax \<le> lenc - 1" by (rule "1.prems"(2))
      show "nmax < length res1" using inner len0 "1.prems"(3) by simp
      show "i + 1 \<le> lenc - 1" using True by simp
      show "\<forall>l \<le> nmax. res1 ! l = horner_cell c x l (max l (lenc - 1 - (i + 1)))"
        by (rule inv)
    qed
    have tail: "res1 ! l = res ! l" if "nmax < l" for l
      using inner that lm r0m[of l] by simp
    show ?thesis
      unfolding eq using ih inner len0 tail by simp
  qed
qed

lemma derivs_factorial_loop_result:
  assumes "nmax < length res" "1 \<le> i" "f = fact (i - 1)"
  shows "length (derivs_factorial_loop nmax i f res) = length res
     \<and> (\<forall>m. i \<le> m \<and> m \<le> nmax \<longrightarrow> derivs_factorial_loop nmax i f res ! m = res ! m * fact m)
     \<and> (\<forall>m. m < i \<or> nmax < m \<longrightarrow> derivs_factorial_loop nmax i f res ! m = res ! m)"
  using assms
proof (induction nmax i f res rule: derivs_factorial_loop.induct)
  case (1 nmax i f res)
  show ?case
  proof (cases "i \<le> nmax")
    case False
    then show ?thesis
      by (simp add: derivs_factorial_loop.simps[of nmax i])
  next
    case True
    define f' where "f' = f * real i"
    define res' where "res' = res[i := res ! i * f']"
    have f': "f' = fact i"
      using "1.prems"(2,3) by (cases i) (simp_all add: f'_def mult.commute)
    have eq: "derivs_factorial_loop nmax i f res = derivs_factorial_loop nmax (i + 1) f' res'"
      using True
      by (simp add: derivs_factorial_loop.simps[of nmax i] Let_def f'_def res'_def)
    have i: "i < length res"
      using True "1.prems"(1) by simp
    have ih: "length (derivs_factorial_loop nmax (i + 1) f' res') = length res'
       \<and> (\<forall>m. i + 1 \<le> m \<and> m \<le> nmax \<longrightarrow>
             derivs_factorial_loop nmax (i + 1) f' res' ! m = res' ! m * fact m)
       \<and> (\<forall>m. m < i + 1 \<or> nmax < m \<longrightarrow>
             derivs_factorial_loop nmax (i + 1) f' res' ! m = res' ! m)"
    proof (rule "1.IH"[OF True f'_def, folded res'_def])
      show "nmax < length res'" using "1.prems"(1) by (simp add: res'_def)
      show "1 \<le> i + 1" by simp
      show "f' = fact (i + 1 - 1)" using f' by simp
    qed
    have at: "res' ! i = res ! i * fact i" "length res' = length res"
      using i f' by (simp_all add: res'_def)
    have other: "res' ! m = res ! m" if "m \<noteq> i" for m
      using that by (simp add: res'_def)
    have a: "derivs_factorial_loop nmax i f res ! m = res ! m * fact m"
      if "i \<le> m \<and> m \<le> nmax" for m
    proof (cases "m = i")
      case True
      then have "m < i + 1 \<or> nmax < m" by simp
      with ih have "derivs_factorial_loop nmax (i + 1) f' res' ! m = res' ! m"
        by blast
      then show ?thesis
        unfolding eq using True at by simp
    next
      case False
      then have "i + 1 \<le> m \<and> m \<le> nmax" using that by auto
      with ih have "derivs_factorial_loop nmax (i + 1) f' res' ! m = res' ! m * fact m"
        by blast
      then show ?thesis
        unfolding eq using other[OF False] by simp
    qed
    have b: "derivs_factorial_loop nmax i f res ! m = res ! m" if "m < i \<or> nmax < m" for m
    proof -
      have ne: "m \<noteq> i" and "m < i + 1 \<or> nmax < m"
        using that True by auto
      with ih have "derivs_factorial_loop nmax (i + 1) f' res' ! m = res' ! m"
        by blast
      then show ?thesis
        unfolding eq using other[OF ne] by simp
    qed
    have "length (derivs_factorial_loop nmax i f res) = length res"
      unfolding eq using ih at by simp
    with a b show ?thesis
      by blast
  qed
qed

subsection \<open>The derivative evaluation as a whole\<close>

lemma gsl_poly_eval_derivs_result:
  assumes "c \<noteq> []"
  shows "\<exists>res. gsl_poly_eval_derivs c (length c) x (replicate (Suc d) 0) (Suc d)
            = ([Poly_eval_derivs], Inr res)
          \<and> length res = Suc d \<and> res ! d = poly_derivative d c x"
proof -
  define lenc where "lenc = length c"
  define init where "init = derivs_init_loop c lenc (Suc d) 0 0 0 (replicate (Suc d) 0)"
  define res1 where "res1 = fst init"
  define nmax where "nmax = snd init"
  define res2 where "res2 = derivs_horner_loop c lenc x nmax 0 res1"
  define res3 where "res3 = derivs_factorial_loop nmax 2 1 res2"
  have lenc: "0 < lenc"
    using assms by (simp add: lenc_def)
  have i: "length res1 = Suc d"
    "\<And>j. j < Suc d \<Longrightarrow> res1 ! j = (if j < lenc then c ! (lenc - 1) else 0)"
    "nmax = min (Suc d) lenc - 1"
    using derivs_init_loop_result[of "replicate (Suc d) 0" "Suc d" 0 0 lenc c 0] lenc
    by (simp_all add: res1_def nmax_def init_def)
  have nm: "nmax \<le> lenc - 1" "nmax < length res1" "nmax \<le> d" "nmax < lenc"
    using i(1,3) lenc by (auto simp add: min_def)
  have inv: "\<forall>l \<le> nmax. res1 ! l = horner_cell c x l (max l (lenc - 1 - 0))"
  proof (intro allI impI)
    fix l
    assume l: "l \<le> nmax"
    then have "max l (lenc - 1 - 0) = lenc - 1" "l < Suc d" "l < lenc"
      using nm by simp_all
    moreover have "horner_cell c x l (lenc - 1) = c ! (lenc - 1)"
      using lenc by (intro horner_cell_last) (simp add: lenc_def)
    ultimately show "res1 ! l = horner_cell c x l (max l (lenc - 1 - 0))"
      using i(2)[of l] by simp
  qed
  have h: "length res2 = length res1"
    "\<And>l. l \<le> nmax \<Longrightarrow> res2 ! l = horner_cell c x l l"
    "\<And>l. nmax < l \<Longrightarrow> res2 ! l = res1 ! l"
    using derivs_horner_loop_result[OF lenc_def nm(1,2) _ inv]
    by (simp_all add: res2_def)
  have fl: "length res3 = length res2
     \<and> (\<forall>m. 2 \<le> m \<and> m \<le> nmax \<longrightarrow> res3 ! m = res2 ! m * fact m)
     \<and> (\<forall>m. m < 2 \<or> nmax < m \<longrightarrow> res3 ! m = res2 ! m)"
    unfolding res3_def
    using derivs_factorial_loop_result[of nmax res2 2 1] nm(2) h(1)
    by simp
  have f: "length res3 = length res2"
    "\<And>m. 2 \<le> m \<and> m \<le> nmax \<Longrightarrow> res3 ! m = res2 ! m * fact m"
    "\<And>m. m < 2 \<or> nmax < m \<Longrightarrow> res3 ! m = res2 ! m"
    using fl by blast+
  have val: "res3 ! d = poly_derivative d c x"
  proof (cases "d < lenc")
    case True
    then have d: "nmax = d"
      using i(3) by (simp add: min_def)
    have "res3 ! d = fact d * horner_cell c x d d"
    proof (cases "2 \<le> d")
      case True
      then show ?thesis
        using f(2)[of d] h(2)[of d] d by simp
    next
      case False
      then have "d = 0 \<or> d = 1"
        by auto
      then have "fact d = (1 :: real)"
        by auto
      then show ?thesis
        using f(3)[of d] h(2)[of d] d False by simp
    qed
    then show ?thesis
      by (simp add: horner_cell_diagonal)
  next
    case False
    then have "nmax < d"
      using nm(4) by simp
    then have "res3 ! d = 0"
      using f(3)[of d] h(3)[of d] i(2)[of d] False by simp
    then show ?thesis
      using False by (simp add: poly_derivative_beyond_degree lenc_def)
  qed
  have "gsl_poly_eval_derivs c (length c) x (replicate (Suc d) 0) (Suc d)
      = ([Poly_eval_derivs], Inr res3)"
    by (simp add: gsl_poly_eval_derivs_def call_def res3_def res2_def nmax_def res1_def
        init_def lenc_def split: prod.splits)
  then show ?thesis
    using val f(1) h(1) i(1) by simp
qed

lemma derivatives_buffer:
  assumes "0 \<le> d" "d < INT_MAX"
  shows "vector_of_size (size_t_of_int (int_add d 1)) = succeed (replicate (Suc (nat d)) 0)"
proof -
  have "int_add d 1 = d + 1"
    using assms by (simp add: int_add_def INT_MAX_def)
  moreover have "size_t_of_int (d + 1) = Suc (nat d)"
    using assms by (simp add: size_t_of_int_def INT_MAX_def nat_add_distrib)
  moreover have "Suc (nat d) \<le> vector_max_size"
    using assms by (simp add: vector_max_size_def INT_MAX_def)
  ultimately show ?thesis
    by (simp add: vector_of_size_def)
qed


lemma evaluatePolynomial_value:
  assumes "coeffs \<noteq> []" "0 \<le> d" "d < INT_MAX"
  shows "evaluatePolynomial coeffs t d
           = ([Poly_eval_derivs], Inr (poly_derivative (nat d) coeffs t))"
proof -
  note n = derivatives_buffer[OF assms(2,3)]
  obtain res where r: "gsl_poly_eval_derivs coeffs (length coeffs) t
              (replicate (Suc (nat d)) 0) (Suc (nat d)) = ([Poly_eval_derivs], Inr res)"
    "length res = Suc (nat d)" "res ! nat d = poly_derivative (nat d) coeffs t"
    using gsl_poly_eval_derivs_result[OF assms(1), of t "nat d"] by auto
  have "last res = res ! nat d"
    using r(2) by (cases res rule: rev_cases) (simp_all add: nth_append)
  then show ?thesis
    using assms(1,2) r by (simp add: evaluatePolynomial_def n succeed_def)
qed

subsection \<open>The closed form is the derivative\<close>

lemma poly_derivative_has_derivative:
  "(poly_derivative d c has_field_derivative poly_derivative (Suc d) c t) (at t)"
proof -
  have summand: "((\<lambda>s. of_nat (fact d * (i choose d)) * c ! i * s ^ (i - d))
        has_field_derivative
          of_nat (fact d * (i choose d)) * c ! i * (of_nat (i - d) * t ^ (i - d - 1))) (at t)"
    for i
    by (auto intro!: derivative_eq_intros)
  have "((\<lambda>s. \<Sum>i = d..<length c. of_nat (fact d * (i choose d)) * c ! i * s ^ (i - d))
        has_field_derivative
          (\<Sum>i = d..<length c.
             of_nat (fact d * (i choose d)) * c ! i * (of_nat (i - d) * t ^ (i - d - 1)))) (at t)"
    by (rule DERIV_sum) (rule summand)
  moreover have "(\<Sum>i = d..<length c.
             of_nat (fact d * (i choose d)) * c ! i * (of_nat (i - d) * t ^ (i - d - 1)))
      = poly_derivative (Suc d) c t"
  proof (cases "d < length c")
    case False
    then show ?thesis
      by (simp add: poly_derivative_def)
  next
    case True
    have absorb: "fact d * (i choose d) * (i - d) = fact (Suc d) * (i choose Suc d)"
      if "Suc d \<le> i" for i :: nat
    proof -
      have "(i choose d) * (i - d) = Suc d * (i choose Suc d)"
        using binomial_absorb_comp[of i d] binomial_absorption[of d i] that
        by (simp add: mult.commute)
      then have "fact d * ((i choose d) * (i - d)) = fact d * (Suc d * (i choose Suc d))"
        by (rule arg_cong)
      also have "\<dots> = fact (Suc d) * (i choose Suc d)"
        by (simp add: algebra_simps)
      finally show ?thesis
        by (simp only: mult.assoc)
    qed
    have "(\<Sum>i = d..<length c.
             of_nat (fact d * (i choose d)) * c ! i * (of_nat (i - d) * t ^ (i - d - 1)))
        = (\<Sum>i = Suc d..<length c.
             of_nat (fact d * (i choose d)) * c ! i * (of_nat (i - d) * t ^ (i - d - 1)))"
      using True by (simp add: sum.atLeast_Suc_lessThan)
    also have "\<dots> = (\<Sum>i = Suc d..<length c.
             of_nat (fact (Suc d) * (i choose Suc d)) * c ! i * t ^ (i - Suc d))"
    proof (rule sum.cong[OF refl])
      fix i
      assume "i \<in> {Suc d..<length c}"
      then have i: "Suc d \<le> i"
        by simp
      define A :: real where "A = of_nat (fact d * (i choose d))"
      define B :: real where "B = of_nat (i - d)"
      define T where "T = t ^ (i - d - 1)"
      have key: "A * B = of_nat (fact (Suc d) * (i choose Suc d))"
        unfolding A_def B_def absorb[OF i, symmetric] by (simp only: of_nat_mult)
      have "A * c ! i * (B * T) = A * B * c ! i * T"
        by (simp only: ac_simps)
      also have "\<dots> = of_nat (fact (Suc d) * (i choose Suc d)) * c ! i * T"
        by (simp only: key)
      finally show "of_nat (fact d * (i choose d)) * c ! i * (of_nat (i - d) * t ^ (i - d - 1))
          = of_nat (fact (Suc d) * (i choose Suc d)) * c ! i * t ^ (i - Suc d)"
        by (simp add: A_def B_def T_def)
    qed
    finally show ?thesis
      by (simp add: poly_derivative_def)
  qed
  ultimately show ?thesis
    by (simp add: poly_derivative_def[abs_def])
qed


section \<open>Polynomial evaluation and its derivatives\<close>




section \<open>Polynomial velocity\<close>

text \<open>
  C5. For exactly 3 non-empty coefficient sequences and every time \<open>t\<close>, the polynomial
  \<^const>\<open>getPosition_poly\<close> returns the values of the three polynomials at \<open>t\<close> and
  \<^const>\<open>getVelocity_poly\<close> returns, component by component, the first derivatives of
  those polynomials at \<open>t\<close>. With x-coefficients \<open>[1, 2]\<close> the position at \<open>t = 3\<close> has
  x-component 7 and the velocity has x-component 2 at every \<open>t\<close>.
\<close>

theorem polynomial_velocity_is_derivative_of_position:
  "(length coeffs = 3 \<and> coeffs ! 0 \<noteq> [] \<and> coeffs ! 1 \<noteq> [] \<and> coeffs ! 2 \<noteq> [] \<longrightarrow>
      outcome (getPosition_poly coeffs t) = Inr (map (\<lambda>c. poly_value c t) coeffs)
    \<and> outcome (getVelocity_poly coeffs t) = Inr (map (\<lambda>c. poly_derivative 1 c t) coeffs)
    \<and> (\<forall>k < 3. (poly_value (coeffs ! k) has_field_derivative
                   poly_derivative 1 (coeffs ! k) t) (at t)))
   \<and> (ys \<noteq> [] \<and> zs \<noteq> [] \<longrightarrow>
        (\<exists>y z. outcome (getPosition_poly [[1, 2], ys, zs] 3) = Inr [7, y, z])
      \<and> (\<exists>y z. outcome (getVelocity_poly [[1, 2], ys, zs] t) = Inr [2, y, z]))"
proof (intro conjI impI)
  assume a: "length coeffs = 3 \<and> coeffs ! 0 \<noteq> [] \<and> coeffs ! 1 \<noteq> [] \<and> coeffs ! 2 \<noteq> []"
  then obtain cx cy cz where c: "coeffs = [cx, cy, cz]"
    by (auto simp add: numeral_eq_Suc length_Suc_conv)
  have ne: "cx \<noteq> []" "cy \<noteq> []" "cz \<noteq> []"
    using a by (simp_all add: c)
  have small: "(0 :: int) < INT_MAX" "(1 :: int) < INT_MAX"
    by (simp_all add: INT_MAX_def)
  show "outcome (getPosition_poly coeffs t) = Inr (map (\<lambda>c. poly_value c t) coeffs)"
    using ne small
    by (simp add: c getPosition_poly_def evaluatePolynomial_value poly_derivative_zero
        succeed_def)
  show "outcome (getVelocity_poly coeffs t) = Inr (map (\<lambda>c. poly_derivative 1 c t) coeffs)"
    using ne small
    by (simp add: c getVelocity_poly_def evaluatePolynomial_value succeed_def)
  show "\<forall>k < 3. (poly_value (coeffs ! k) has_field_derivative
                   poly_derivative 1 (coeffs ! k) t) (at t)"
    using poly_derivative_has_derivative[of 0 _ t]
    by (simp add: poly_derivative_zero)
next
  assume a: "ys \<noteq> [] \<and> zs \<noteq> []"
  have small: "(0 :: int) < INT_MAX" "(1 :: int) < INT_MAX"
    by (simp_all add: INT_MAX_def)
  have x0: "poly_derivative 0 [1, 2] 3 = 7"
    by (simp add: poly_derivative_def atLeast0LessThan lessThan_Suc numeral_eq_Suc)
  have x1: "poly_derivative (Suc 0) [1, 2] t = 2"
    by (simp add: poly_derivative_def numeral_eq_Suc)
  show "\<exists>y z. outcome (getPosition_poly [[1, 2], ys, zs] 3) = Inr [7, y, z]"
    using a small by (simp add: getPosition_poly_def evaluatePolynomial_value succeed_def x0)
  show "\<exists>y z. outcome (getVelocity_poly [[1, 2], ys, zs] t) = Inr [2, y, z]"
    using a small by (simp add: getVelocity_poly_def evaluatePolynomial_value succeed_def x1)
qed

theorem polynomial_velocity_is_derivative_of_position_witness:
  "outcome (getPosition_poly [[1, 2], [0], [5]] 3)
     = Inr (map (\<lambda>c. poly_value c 3) [[1, 2], [0], [5]])
   \<and> outcome (getVelocity_poly [[1, 2], [0], [5]] 3)
     = Inr (map (\<lambda>c. poly_derivative 1 c 3) [[1, 2], [0], [5]])
   \<and> (poly_value [1, 2] has_field_derivative poly_derivative 1 [1, 2] 3) (at 3)
   \<and> (\<exists>y z. outcome (getPosition_poly [[1, 2], [0], [5]] 3) = Inr [7, y, z])
   \<and> (\<exists>y z. outcome (getVelocity_poly [[1, 2], [0], [5]] 3) = Inr [2, y, z])"
proof -
  have h: "length [[1, 2], [0], [5 :: real]] = 3 \<and> [[1, 2], [0], [5 :: real]] ! 0 \<noteq> []
      \<and> [[1, 2], [0], [5 :: real]] ! 1 \<noteq> [] \<and> [[1, 2], [0], [5 :: real]] ! 2 \<noteq> []"
    by simp
  have g: "[0 :: real] \<noteq> [] \<and> [5 :: real] \<noteq> []"
    by simp
  note th = polynomial_velocity_is_derivative_of_position
              [of "[[1, 2], [0], [5]]" 3 "[0]" "[5]"]
  from th h have A: "outcome (getPosition_poly [[1, 2], [0], [5]] 3)
        = Inr (map (\<lambda>c. poly_value c 3) [[1, 2], [0], [5]])
      \<and> outcome (getVelocity_poly [[1, 2], [0], [5]] 3)
        = Inr (map (\<lambda>c. poly_derivative 1 c 3) [[1, 2], [0], [5]])
      \<and> (\<forall>k < 3. (poly_value ([[1, 2], [0], [5]] ! k) has_field_derivative
                   poly_derivative 1 ([[1, 2], [0], [5]] ! k) 3) (at 3))"
    by blast
  from th g have B: "(\<exists>y z. outcome (getPosition_poly [[1, 2], [0], [5]] 3) = Inr [7, y, z])
      \<and> (\<exists>y z. outcome (getVelocity_poly [[1, 2], [0], [5]] 3) = Inr [2, y, z])"
    by blast
  from A have "(poly_value ([[1, 2], [0], [5]] ! 0) has_field_derivative
                   poly_derivative 1 ([[1, 2], [0], [5]] ! 0) 3) (at 3)"
    by (elim conjE allE[of _ 0]) simp
  then have D: "(poly_value [1, 2] has_field_derivative poly_derivative 1 [1, 2] 3) (at 3)"
    by simp
  from A B D show ?thesis
    by blast
qed

end
